theory Spec2Isabelle
  imports Main
begin

section \<open>The editor's data model\<close>

text \<open>
  The program is the class \<open>StructuredMarkdownEditor\<close> of \<open>src/script.js\<close>. Its model part
  (blocks, groups, variables, the ordering operations, the table mutators and the Markdown
  codec) is embedded here. The elements of the page, the clipboard and the local storage
  are the host's: they are taken to be there, and of the calls \<open>renderAllContent\<close>,
  \<open>updatePreview\<close>, \<open>saveToStorage\<close> that end most methods the model keeps what the
  editor's own code can throw; none of them changes the four model fields.

  Text is a \<open>string\<close> (a list of 8-bit characters): the model covers ASCII text.
  Mutation is explicit state passing over the record \<open>editor\<close>. A JavaScript object
  reference (a block found by \<open>find\<close>, the \<open>item\<close> field of an ordered item) is the
  position of the object in \<open>this.blocks\<close> or in \<open>this.groups\<close>, so that writing through
  the reference is a list update at that position.
\<close>

datatype block_type = THeading | TParagraph | TList | TCode | TTable

record table_data =
  headers :: "string list"
  rows :: "string list list"

datatype content = Text string | TableC table_data

text \<open>
  A block. \<open>b_groupId = None\<close> stands for \<open>null\<close> and for \<open>undefined\<close> (the code only
  tests the field's truthiness or compares it with a group key); \<open>b_selected = False\<close>
  stands for \<open>false\<close> and \<open>undefined\<close>; \<open>b_order = None\<close> is \<open>undefined\<close>, which the
  code reads through \<open>order || 0\<close>. The order values the operations produce are integers.
\<close>

record block =
  b_id :: string
  b_type :: block_type
  b_content :: content
  b_groupId :: "string option"
  b_selected :: bool
  b_order :: "int option"

record group =
  g_id :: string
  g_name :: string
  g_order :: int

record variable =
  v_key :: string
  v_value :: string

text \<open>
  The two \<open>Map\<close>s are association lists in insertion order, as \<open>Map.forEach\<close> visits them.
\<close>

record editor =
  blocks :: "block list"
  variables :: "(string \<times> variable) list"
  groups :: "(string \<times> group) list"
  groupCounter :: nat

datatype error = TypeError | SyntaxError

definition constructor_state :: editor where
  "constructor_state = \<lparr>blocks = [], variables = [], groups = [], groupCounter = 0\<rparr>"

subsection \<open>Array and Map primitives\<close>

text \<open>\<open>Array.prototype.find\<close> as the position of the first match.\<close>

fun find_pos :: "('a \<Rightarrow> bool) \<Rightarrow> 'a list \<Rightarrow> nat option" where
  "find_pos P [] = None"
| "find_pos P (x # xs) =
     (if P x then Some 0 else (case find_pos P xs of None \<Rightarrow> None | Some i \<Rightarrow> Some (Suc i)))"

text \<open>\<open>Array.prototype.findIndex\<close>: \<open>-1\<close> when nothing matches.\<close>

definition findIndex :: "('a \<Rightarrow> bool) \<Rightarrow> 'a list \<Rightarrow> int" where
  "findIndex P xs = (case find_pos P xs of None \<Rightarrow> - 1 | Some i \<Rightarrow> int i)"

text \<open>
  \<open>Array.prototype.splice(start, 1)\<close>, the array that is left: a negative start counts
  from the end (not below 0), a start past the end removes nothing.
\<close>

definition splice1 :: "int \<Rightarrow> 'a list \<Rightarrow> 'a list" where
  "splice1 start xs =
     (let len = int (length xs);
          actualStart = (if start < 0 then max (len + start) 0 else min start len)
      in take (nat actualStart) xs @ drop (Suc (nat actualStart)) xs)"

text \<open>\<open>Map.prototype.set\<close>: an existing key keeps its place, a new key goes last.\<close>

fun map_set :: "'k \<Rightarrow> 'v \<Rightarrow> ('k \<times> 'v) list \<Rightarrow> ('k \<times> 'v) list" where
  "map_set k v [] = [(k, v)]"
| "map_set k v (p # ps) = (if fst p = k then (k, v) # ps else p # map_set k v ps)"

text \<open>\<open>Map.prototype.delete\<close>.\<close>

definition map_delete :: "'k \<Rightarrow> ('k \<times> 'v) list \<Rightarrow> ('k \<times> 'v) list" where
  "map_delete k ps = filter (\<lambda>p. fst p \<noteq> k) ps"

section \<open>Table mutators\<close>

text \<open>
  \<open>addTableRow\<close>, \<open>addTableColumn\<close>, \<open>deleteTableRow\<close>, \<open>deleteTableColumn\<close>
  (script.js 562-603). Each looks the block up by id and acts only when it is a table.
  A block of type table whose content is a string makes \<open>block.content.headers\<close>
  \<open>undefined\<close>, and reading a property of it throws a \<open>TypeError\<close>, before anything
  is written. The result is the state the mutation leaves; the \<open>rerenderBlock\<close>,
  \<open>updatePreview\<close> and \<open>saveToStorage\<close> that follow it inside the guard write no field.
\<close>

definition addTableRow :: "string \<Rightarrow> editor \<Rightarrow> error + editor" where
  "addTableRow blockId s =
     (case find_pos (\<lambda>b. b_id b = blockId) (blocks s) of
        None \<Rightarrow> Inr s
      | Some i \<Rightarrow>
          let blk = blocks s ! i in
          if b_type blk = TTable then
            (case b_content blk of
               Text x \<Rightarrow> Inl TypeError
             | TableC t \<Rightarrow>
                 let newRow = replicate (length (headers t)) [] in
                 Inr (s\<lparr>blocks := (blocks s)
                   [i := blk\<lparr>b_content := TableC (t\<lparr>rows := rows t @ [newRow]\<rparr>)\<rparr>]\<rparr>))
          else Inr s)"

definition addTableColumn :: "string \<Rightarrow> editor \<Rightarrow> error + editor" where
  "addTableColumn blockId s =
     (case find_pos (\<lambda>b. b_id b = blockId) (blocks s) of
        None \<Rightarrow> Inr s
      | Some i \<Rightarrow>
          let blk = blocks s ! i in
          if b_type blk = TTable then
            (case b_content blk of
               Text x \<Rightarrow> Inl TypeError
             | TableC t \<Rightarrow>
                 Inr (s\<lparr>blocks := (blocks s)
                   [i := blk\<lparr>b_content := TableC
                      \<lparr>headers = headers t @ [''New Column''],
                       rows = map (\<lambda>row. row @ [[]]) (rows t)\<rparr>\<rparr>]\<rparr>))
          else Inr s)"

definition deleteTableRow :: "string \<Rightarrow> int \<Rightarrow> editor \<Rightarrow> error + editor" where
  "deleteTableRow blockId rowIndex s =
     (case find_pos (\<lambda>b. b_id b = blockId) (blocks s) of
        None \<Rightarrow> Inr s
      | Some i \<Rightarrow>
          let blk = blocks s ! i in
          if b_type blk = TTable then
            (case b_content blk of
               Text x \<Rightarrow> Inl TypeError
             | TableC t \<Rightarrow>
                 if length (rows t) > 1 then
                   Inr (s\<lparr>blocks := (blocks s)
                     [i := blk\<lparr>b_content := TableC (t\<lparr>rows := splice1 rowIndex (rows t)\<rparr>)\<rparr>]\<rparr>)
                 else Inr s)
          else Inr s)"

definition deleteTableColumn :: "string \<Rightarrow> int \<Rightarrow> editor \<Rightarrow> error + editor" where
  "deleteTableColumn blockId colIndex s =
     (case find_pos (\<lambda>b. b_id b = blockId) (blocks s) of
        None \<Rightarrow> Inr s
      | Some i \<Rightarrow>
          let blk = blocks s ! i in
          if b_type blk = TTable then
            (case b_content blk of
               Text x \<Rightarrow> Inl TypeError
             | TableC t \<Rightarrow>
                 if length (headers t) > 1 then
                   Inr (s\<lparr>blocks := (blocks s)
                     [i := blk\<lparr>b_content := TableC
                        \<lparr>headers = splice1 colIndex (headers t),
                         rows = map (splice1 colIndex) (rows t)\<rparr>\<rparr>]\<rparr>)
                 else Inr s)
          else Inr s)"

text \<open>A call of one of the four mutators, and a finite sequence of calls run in order.\<close>

datatype table_op =
    AddRow string
  | AddColumn string
  | DeleteRow string int
  | DeleteColumn string int

fun apply_table_op :: "table_op \<Rightarrow> editor \<Rightarrow> error + editor" where
  "apply_table_op (AddRow b) s = addTableRow b s"
| "apply_table_op (AddColumn b) s = addTableColumn b s"
| "apply_table_op (DeleteRow b i) s = deleteTableRow b i s"
| "apply_table_op (DeleteColumn b i) s = deleteTableColumn b i s"

fun apply_table_ops :: "table_op list \<Rightarrow> editor \<Rightarrow> error + editor" where
  "apply_table_ops [] s = Inr s"
| "apply_table_ops (x # xs) s =
     (case apply_table_op x s of Inl e \<Rightarrow> Inl e | Inr s' \<Rightarrow> apply_table_ops xs s')"

text \<open>The table invariant of the data model, for one table and for every table block.\<close>

definition table_inv :: "table_data \<Rightarrow> bool" where
  "table_inv t \<longleftrightarrow>
     1 \<le> length (headers t) \<and> 1 \<le> length (rows t) \<and>
     list_all (\<lambda>row. length row = length (headers t)) (rows t)"

definition tables_inv :: "editor \<Rightarrow> bool" where
  "tables_inv s \<longleftrightarrow>
     list_all (\<lambda>b. b_type b = TTable \<longrightarrow>
       (case b_content b of Text x \<Rightarrow> False | TableC t \<Rightarrow> table_inv t)) (blocks s)"

section \<open>Block creation\<close>

text \<open>\<open>getDefaultContent\<close> (script.js 64-79).\<close>

definition getDefaultContent :: "block_type \<Rightarrow> content" where
  "getDefaultContent ty =
     (case ty of
        THeading \<Rightarrow> Text ''# New Heading''
      | TParagraph \<Rightarrow> Text ''New paragraph content...''
      | TList \<Rightarrow> Text (''- Item 1'' @ [CHR 0x0A] @ ''- Item 2'' @ [CHR 0x0A] @ ''- Item 3'')
      | TCode \<Rightarrow> Text ([CHR 0x60, CHR 0x60, CHR 0x60] @ ''javascript'' @ [CHR 0x0A] @
                  ''// Your code here'' @ [CHR 0x0A] @
                  ''console.log('' @ [CHR 0x22] @ ''Hello World'' @ [CHR 0x22] @ '');'' @
                  [CHR 0x0A] @ [CHR 0x60, CHR 0x60, CHR 0x60])
      | TTable \<Rightarrow> TableC
          \<lparr>headers = [''Column 1'', ''Column 2'', ''Column 3''],
           rows = [[''Cell 1'', ''Cell 2'', ''Cell 3''], [''Cell 4'', ''Cell 5'', ''Cell 6'']]\<rparr>)"

text \<open>
  \<open>addBlock\<close> (script.js 47-62). The id is \<open>block_<Date.now()>_<random>\<close>; the model
  takes the minted id as the argument \<open>blockId\<close>. The result is the state the call
  leaves: the refresh of the view that ends the method writes no field.
\<close>

definition addBlock :: "string \<Rightarrow> block_type \<Rightarrow> string option \<Rightarrow> editor \<Rightarrow> editor" where
  "addBlock blockId ty groupId s =
     s\<lparr>blocks := blocks s @
        [\<lparr>b_id = blockId, b_type = ty, b_content = getDefaultContent ty,
          b_groupId = groupId, b_selected = False,
          b_order = Some (int (length (blocks s)))\<rparr>]\<rparr>"

section \<open>The ordering engine\<close>

text \<open>JavaScript truthiness of \<open>block.groupId\<close>, and \<open>block.order || 0\<close>.\<close>

definition truthy :: "string option \<Rightarrow> bool" where
  "truthy g = (case g of None \<Rightarrow> False | Some x \<Rightarrow> x \<noteq> [])"

definition ord0 :: "block \<Rightarrow> int" where
  "ord0 b = (case b_order b of None \<Rightarrow> 0 | Some n \<Rightarrow> n)"

text \<open>
  An entry of the ordered list: \<open>{type: 'block', item, order}\<close> or
  \<open>{type: 'group', item, blocks, order}\<close>. The first component is the position of the
  block in \<open>this.blocks\<close>, or of the group in \<open>this.groups\<close>: the object \<open>item\<close> refers to.
\<close>

datatype item_kind = KBlock | KGroup

datatype item =
    BlockItem nat block int
  | GroupItem nat group "block list" int

fun item_type :: "item \<Rightarrow> item_kind" where
  "item_type (BlockItem i b n) = KBlock"
| "item_type (GroupItem j g bs n) = KGroup"

fun item_id :: "item \<Rightarrow> string" where
  "item_id (BlockItem i b n) = b_id b"
| "item_id (GroupItem j g bs n) = g_id g"

fun item_order :: "item \<Rightarrow> int" where
  "item_order (BlockItem i b n) = n"
| "item_order (GroupItem j g bs n) = n"

text \<open>
  \<open>getAllOrderedItems\<close> (script.js 462-488): the ungrouped blocks, then the groups that
  have a member, sorted by order. \<open>Array.prototype.sort\<close> is stable, as \<open>sort_key\<close> is.
  A group's order is a number, on which \<open>|| 0\<close> changes nothing.
\<close>

definition block_items :: "editor \<Rightarrow> item list" where
  "block_items s =
     map (\<lambda>(i, b). BlockItem i b (ord0 b))
       (filter (\<lambda>(i, b). \<not> truthy (b_groupId b)) (enumerate 0 (blocks s)))"

definition group_items :: "editor \<Rightarrow> item list" where
  "group_items s =
     concat (map (\<lambda>(j, (groupId, g)).
         let groupBlocks = filter (\<lambda>b. b_groupId b = Some groupId) (blocks s) in
         if length groupBlocks > 0 then [GroupItem j g groupBlocks (g_order g)] else [])
       (enumerate 0 (groups s)))"

definition getAllOrderedItems :: "editor \<Rightarrow> item list" where
  "getAllOrderedItems s = sort_key item_order (block_items s @ group_items s)"

text \<open>Writing \<open>item.order\<close> through the reference an entry holds.\<close>

definition set_block_order :: "nat \<Rightarrow> int option \<Rightarrow> editor \<Rightarrow> editor" where
  "set_block_order i v s = s\<lparr>blocks := (blocks s)[i := (blocks s ! i)\<lparr>b_order := v\<rparr>]\<rparr>"

definition set_group_order :: "nat \<Rightarrow> int \<Rightarrow> editor \<Rightarrow> editor" where
  "set_group_order j v s =
     s\<lparr>groups := (groups s)[j := (fst (groups s ! j), (snd (groups s ! j))\<lparr>g_order := v\<rparr>)]\<rparr>"

fun set_item_order :: "item \<Rightarrow> int \<Rightarrow> editor \<Rightarrow> editor" where
  "set_item_order (BlockItem i b n) v s = set_block_order i (Some v) s"
| "set_item_order (GroupItem j g bs n) v s = set_group_order j v s"

text \<open>
  \<open>moveItemUp\<close> (script.js 408-433): the entry at \<open>index\<close> and the one before it swap
  their order values, which are then written to the two objects, the entry at \<open>index\<close>
  first.
\<close>

definition moveItemUp :: "item_kind \<Rightarrow> string \<Rightarrow> editor \<Rightarrow> editor" where
  "moveItemUp itemType itemId s =
     (let allItems = getAllOrderedItems s;
          index = findIndex (\<lambda>it. item_type it = itemType \<and> item_id it = itemId) allItems
      in if index > 0 then
           let cur = allItems ! nat index;
               prev = allItems ! nat (index - 1);
               temp = item_order cur
           in set_item_order prev temp (set_item_order cur (item_order prev) s)
         else s)"

text \<open>
  \<open>moveItemDown\<close> (script.js 435-460). The guard is \<open>index < allItems.length - 1\<close>
  alone: with \<open>index = -1\<close> and a non-empty list it holds, \<open>allItems[-1]\<close> is
  \<open>undefined\<close>, and reading \<open>.order\<close> of it throws a \<open>TypeError\<close> before anything is
  written.
\<close>

definition moveItemDown :: "item_kind \<Rightarrow> string \<Rightarrow> editor \<Rightarrow> error + editor" where
  "moveItemDown itemType itemId s =
     (let allItems = getAllOrderedItems s;
          index = findIndex (\<lambda>it. item_type it = itemType \<and> item_id it = itemId) allItems
      in if index < int (length allItems) - 1 then
           if index < 0 then Inl TypeError
           else
             let cur = allItems ! nat index;
                 nxt = allItems ! nat (index + 1);
                 temp = item_order cur
             in Inr (set_item_order nxt temp (set_item_order cur (item_order nxt) s))
         else Inr s)"

text \<open>
  The members of the group of \<open>blk\<close>, sorted by \<open>order || 0\<close>, each with its position in
  \<open>this.blocks\<close> (script.js 364-365 and 389-390).
\<close>

definition sorted_group_blocks :: "block \<Rightarrow> editor \<Rightarrow> (nat \<times> block) list" where
  "sorted_group_blocks blk s =
     sort_key (\<lambda>(k, b). ord0 b)
       (filter (\<lambda>(k, b). b_groupId b = b_groupId blk) (enumerate 0 (blocks s)))"

text \<open>\<open>handleBlockSelection\<close> (script.js 638-645): the checkbox of a block.\<close>

definition handleBlockSelection :: "string \<Rightarrow> bool \<Rightarrow> editor \<Rightarrow> editor" where
  "handleBlockSelection blockId checked s =
     (case find_pos (\<lambda>b. b_id b = blockId) (blocks s) of
        None \<Rightarrow> s
      | Some i \<Rightarrow> s\<lparr>blocks := (blocks s)[i := (blocks s ! i)\<lparr>b_selected := checked\<rparr>]\<rparr>)"

text \<open>
  The decimal numeral of a counter, as the template literal \<open>`group_${n}`\<close> prints a
  non-negative integer.
\<close>

definition digit_char :: "nat \<Rightarrow> char" where
  "digit_char d = ''0123456789'' ! d"

fun string_of_nat :: "nat \<Rightarrow> string" where
  "string_of_nat n =
     (if n < 10 then [digit_char n] else string_of_nat (n div 10) @ [digit_char (n mod 10)])"

declare string_of_nat.simps [simp del]

text \<open>
  \<open>groupSelectedBlocks\<close> (script.js 497-525). The result is the message of the
  \<open>alert\<close>, if one is shown, and the state the call leaves.
\<close>

definition selectedBlocks :: "editor \<Rightarrow> (nat \<times> block) list" where
  "selectedBlocks s =
     filter (\<lambda>(i, b). b_selected b \<and> \<not> truthy (b_groupId b)) (enumerate 0 (blocks s))"

definition assign_to_group :: "string \<Rightarrow> nat \<times> nat \<times> block \<Rightarrow> editor \<Rightarrow> editor" where
  "assign_to_group groupId e st =
     (case e of (index, i, b) \<Rightarrow>
        st\<lparr>blocks := (blocks st)
          [i := (blocks st ! i)\<lparr>b_groupId := Some groupId, b_selected := False,
                                b_order := Some (int index)\<rparr>]\<rparr>)"

definition groupSelectedBlocks :: "editor \<Rightarrow> string option \<times> editor" where
  "groupSelectedBlocks s =
     (let sel = selectedBlocks s in
      if length sel < 2 then (Some ''Please select at least 2 blocks to group'', s)
      else
        let groupId = ''group_'' @ string_of_nat (groupCounter s);
            s1 = s\<lparr>groupCounter := groupCounter s + 1\<rparr>;
            groupName = ''Group '' @ string_of_nat (groupCounter s1);
            minOrder = min_list (map (\<lambda>(i, b). ord0 b) sel);
            s2 = s1\<lparr>groups := map_set groupId
                   \<lparr>g_id = groupId, g_name = groupName, g_order = minOrder\<rparr> (groups s1)\<rparr>
        in (None, fold (assign_to_group groupId) (enumerate 0 sel) s2))"

section \<open>Strings\<close>

text \<open>
  Characters are read as the code units \<open>U+0000\<close> to \<open>U+00FF\<close>. \<open>is_space\<close> is the
  white space and line terminators of JavaScript in that range (what \<open>trim\<close> strips and
  \<open>\s\<close> matches): TAB, LF, VT, FF, CR, SP, NBSP.
\<close>

definition is_space :: "char \<Rightarrow> bool" where
  "is_space c \<longleftrightarrow> c \<in> {CHR 0x09, CHR 0x0A, CHR 0x0B, CHR 0x0C, CHR 0x0D, CHR 0x20, CHR 0xA0}"

definition trim :: "string \<Rightarrow> string" where
  "trim s = rev (dropWhile is_space (rev (dropWhile is_space s)))"

definition startsWith :: "string \<Rightarrow> string \<Rightarrow> bool" where
  "startsWith s p \<longleftrightarrow> take (length p) s = p"

fun str_includes :: "string \<Rightarrow> string \<Rightarrow> bool" where
  "str_includes [] p \<longleftrightarrow> p = []"
| "str_includes (c # cs) p \<longleftrightarrow> startsWith (c # cs) p \<or> str_includes cs p"

text \<open>\<open>markdown.split('\n')\<close>: the lines between the line feeds, at least one.\<close>

function split_lines :: "string \<Rightarrow> string list" where
  "split_lines s =
     (case dropWhile (\<lambda>c. c \<noteq> CHR 0x0A) s of
        [] \<Rightarrow> [s]
      | c # r \<Rightarrow> takeWhile (\<lambda>c. c \<noteq> CHR 0x0A) s # split_lines r)"
  by pat_completeness auto
termination
proof (relation "measure length")
  show "wf (measure length)" by simp
next
  fix s :: string and c r
  assume "dropWhile (\<lambda>c. c \<noteq> CHR 0x0A) s = c # r"
  then have "length (c # r) \<le> length s"
    by (metis length_dropWhile_le)
  then show "(r, s) \<in> measure length" by simp
qed

declare split_lines.simps [simp del]

section \<open>The variable store\<close>

text \<open>
  \<open>new RegExp(`\\{\\{${variable.key}\\}\\}`, 'g')\<close> puts the key into the pattern as it
  is. A key made of pattern characters and dots is a pattern: a pattern character
  (any character but \<open>^ $ \ . * + ? ( ) [ ] { } |\<close>) matches itself, a dot matches any
  character but a line terminator (LF, CR). A key of such characters and opening
  parentheses, with at least one of these, leaves a group unterminated; a key of such
  characters and closing parentheses, with at least one of these, has an unmatched
  parenthesis: for both the constructor throws a \<open>SyntaxError\<close>. For every other key
  \<open>key_pattern\<close> is \<open>None\<close>: what the regular expression engine does with it is not
  modelled.
\<close>

datatype atom = Lit char | AnyChar

definition syntax_char :: "char \<Rightarrow> bool" where
  "syntax_char c \<longleftrightarrow>
     c \<in> {CHR ''^'', CHR ''$'', CHR 0x5C, CHR ''.'', CHR ''*'', CHR ''+'', CHR ''?'',
          CHR ''('', CHR '')'', CHR ''['', CHR '']'', CHR ''{'', CHR ''}'', CHR ''|''}"

fun pattern_atoms :: "string \<Rightarrow> atom list option" where
  "pattern_atoms [] = Some []"
| "pattern_atoms (c # cs) =
     (case pattern_atoms cs of
        None \<Rightarrow> None
      | Some as \<Rightarrow>
          if c = CHR ''.'' then Some (AnyChar # as)
          else if syntax_char c then None
          else Some (Lit c # as))"

definition unbalanced :: "char \<Rightarrow> string \<Rightarrow> bool" where
  "unbalanced paren key \<longleftrightarrow>
     paren \<in> set key \<and>
     list_all (\<lambda>c. c = paren \<or> c = CHR ''.'' \<or> \<not> syntax_char c) key"

definition key_pattern :: "string \<Rightarrow> (error + atom list) option" where
  "key_pattern key =
     (case pattern_atoms key of
        Some as \<Rightarrow> Some (Inr as)
      | None \<Rightarrow>
          if unbalanced CHR ''('' key \<or> unbalanced CHR '')'' key then Some (Inl SyntaxError)
          else None)"

fun match_atom :: "atom \<Rightarrow> char \<Rightarrow> bool" where
  "match_atom (Lit c) d \<longleftrightarrow> c = d"
| "match_atom AnyChar d \<longleftrightarrow> d \<noteq> CHR 0x0A \<and> d \<noteq> CHR 0x0D"

text \<open>The pattern matches at the start of the text.\<close>

fun match_here :: "atom list \<Rightarrow> string \<Rightarrow> bool" where
  "match_here [] s \<longleftrightarrow> True"
| "match_here (a # as) [] \<longleftrightarrow> False"
| "match_here (a # as) (d # ds) \<longleftrightarrow> match_atom a d \<and> match_here as ds"

text \<open>
  The replacement text of one match (\<open>GetSubstitution\<close> with no capture groups): \<open>$$\<close>
  is a dollar sign, \<open>$&\<close> the matched text, \<open>$`\<close> the text \<open>pre\<close> before the match, \<open>$'\<close> the
  text \<open>post\<close> after it; every other character stands for itself.
\<close>

fun substitution :: "string \<Rightarrow> string \<Rightarrow> string \<Rightarrow> string \<Rightarrow> string" where
  "substitution matched pre post [] = []"
| "substitution matched pre post [c] = [c]"
| "substitution matched pre post (c # d # r) =
     (if c = CHR ''$'' \<and> d = CHR ''$'' then CHR ''$'' # substitution matched pre post r
      else if c = CHR ''$'' \<and> d = CHR ''&'' then matched @ substitution matched pre post r
      else if c = CHR ''$'' \<and> d = CHR 0x60 then pre @ substitution matched pre post r
      else if c = CHR ''$'' \<and> d = CHR 0x27 then post @ substitution matched pre post r
      else c # substitution matched pre post (d # r))"

text \<open>
  \<open>text.replace(regex, value)\<close> with the global flag, for the pattern \<open>\{\{\<close> key
  \<open>\}\}\<close>: the matches are found from left to right and do not overlap. \<open>pre\<close> is
  the part of the original text already passed.
\<close>

definition placeholder :: "atom list \<Rightarrow> atom list" where
  "placeholder key = [Lit CHR ''{'', Lit CHR ''{''] @ key @ [Lit CHR ''}'', Lit CHR ''}'']"

fun replace_from :: "atom list \<Rightarrow> string \<Rightarrow> string \<Rightarrow> string \<Rightarrow> string" where
  "replace_from key val pre [] = []"
| "replace_from key val pre (c # cs) =
     (if match_here (placeholder key) (c # cs) then
        let n = length key + 3;
            matched = c # take n cs;
            post = drop n cs
        in substitution matched pre post val @
           replace_from key val (pre @ matched) post
      else c # replace_from key val (pre @ [c]) cs)"

definition replace_key :: "string \<Rightarrow> string \<Rightarrow> string \<Rightarrow> (error + string) option" where
  "replace_key key val s =
     (case key_pattern key of
        None \<Rightarrow> None
      | Some (Inl e) \<Rightarrow> Some (Inl e)
      | Some (Inr as) \<Rightarrow> Some (Inr (replace_from as val [] s)))"

text \<open>\<open>result.replace(/\{\{|\}\}/g, '')\<close>.\<close>

fun strip_markers :: "string \<Rightarrow> string" where
  "strip_markers [] = []"
| "strip_markers [c] = [c]"
| "strip_markers (c # d # r) =
     (if c = CHR ''{'' \<and> d = CHR ''{'' then strip_markers r
      else if c = CHR ''}'' \<and> d = CHR ''}'' then strip_markers r
      else c # strip_markers (d # r))"

text \<open>\<open>/^[\d\s+\-*/().]+$/.test(mathExpression)\<close>.\<close>

definition math_char :: "char \<Rightarrow> bool" where
  "math_char c \<longleftrightarrow> c \<in> set ''0123456789+-*/().'' \<or> is_space c"

definition is_math :: "string \<Rightarrow> bool" where
  "is_math s \<longleftrightarrow> s \<noteq> [] \<and> list_all math_char s"

text \<open>
  \<open>evaluateExpression\<close> (script.js 752-772). \<open>ev\<close> stands for the host's
  \<open>eval(x).toString()\<close>, \<open>None\<close> when it throws (the \<open>catch\<close> then returns \<open>result\<close>).
  The loop over the variables is outside the \<open>try\<close>: a \<open>SyntaxError\<close> of the regular
  expression constructor leaves the method. A result \<open>Some (Inr x)\<close> is the value \<open>x\<close>
  returned, \<open>Some (Inl e)\<close> the error \<open>e\<close> thrown, and \<open>None\<close> a key outside the modelled
  ones.
\<close>

fun eval_subst :: "variable list \<Rightarrow> string \<Rightarrow> (error + string) option" where
  "eval_subst [] result = Some (Inr result)"
| "eval_subst (v # vs) result =
     (if v_key v \<noteq> [] \<and> \<not> str_includes (v_value v) ''{{'' then
        (case replace_key (v_key v) (v_value v) result of
           None \<Rightarrow> None
         | Some (Inl e) \<Rightarrow> Some (Inl e)
         | Some (Inr result') \<Rightarrow> eval_subst vs result')
      else eval_subst vs result)"

definition evaluateExpression ::
  "(string \<Rightarrow> string option) \<Rightarrow> variable list \<Rightarrow> string \<Rightarrow> (error + string) option" where
  "evaluateExpression ev vars expression =
     (case eval_subst vars expression of
        None \<Rightarrow> None
      | Some (Inl e) \<Rightarrow> Some (Inl e)
      | Some (Inr result) \<Rightarrow>
          let mathExpression = strip_markers result in
          if is_math mathExpression then
            (case ev mathExpression of None \<Rightarrow> Some (Inr result) | Some r \<Rightarrow> Some (Inr r))
          else Some (Inr result))"

text \<open>
  \<open>substituteVariables\<close> (script.js 735-750): the loop over the variables in insertion
  order, with \<open>all\<close> the whole variable list that \<open>evaluateExpression\<close> reads.
\<close>

fun subst_loop ::
  "(string \<Rightarrow> string option) \<Rightarrow> variable list \<Rightarrow> variable list \<Rightarrow> string \<Rightarrow>
   (error + string) option" where
  "subst_loop ev all [] result = Some (Inr result)"
| "subst_loop ev all (v # vs) result =
     (if v_key v \<noteq> [] then
        (case key_pattern (v_key v) of
           None \<Rightarrow> None
         | Some (Inl e) \<Rightarrow> Some (Inl e)
         | Some (Inr as) \<Rightarrow>
             (case (if str_includes (v_value v) ''{{'' \<and> str_includes (v_value v) ''}}''
                    then evaluateExpression ev all (v_value v) else Some (Inr (v_value v))) of
                None \<Rightarrow> None
              | Some (Inl e) \<Rightarrow> Some (Inl e)
              | Some (Inr val) \<Rightarrow> subst_loop ev all vs (replace_from as val [] result)))
      else subst_loop ev all vs result)"

definition substituteVariables ::
  "(string \<Rightarrow> string option) \<Rightarrow> variable list \<Rightarrow> string \<Rightarrow> (error + string) option" where
  "substituteVariables ev vars s = subst_loop ev vars vars s"

section \<open>The Markdown codec\<close>

text \<open>\<open>generateTableMarkdown\<close> (script.js 814-836).\<close>

definition generateTableMarkdown :: "table_data \<Rightarrow> string" where
  "generateTableMarkdown tableData =
     ''|'' @ concat (map (\<lambda>header. '' '' @ header @ '' |'') (headers tableData)) @
     [CHR 0x0A] @ ''|'' @ concat (map (\<lambda>header. '' --- |'') (headers tableData)) @
     [CHR 0x0A] @
     concat (map (\<lambda>row. ''|'' @ concat (map (\<lambda>cell. '' '' @ cell @ '' |'') row) @ [CHR 0x0A])
       (rows tableData))"

text \<open>
  The text one block contributes (script.js 782-791 and 797-806), before the two line
  feeds. The outer \<open>None\<close> is a variable key outside the modelled ones. A table block
  whose content is a string throws in \<open>generateTableMarkdown\<close>; another block whose
  content is a table object is passed to \<open>substituteVariables\<close>, which throws at the
  first variable with a key, once its pattern and its value are computed (\<open>replace\<close> is
  no method of the object), and otherwise returns the object, printed as
  \<open>[object Object]\<close>.
\<close>

definition block_markdown ::
  "(string \<Rightarrow> string option) \<Rightarrow> variable list \<Rightarrow> block \<Rightarrow> (error + string) option" where
  "block_markdown ev vars b =
     (case b_content b of
        Text x \<Rightarrow>
          if b_type b = TTable then Some (Inl TypeError)
          else substituteVariables ev vars x
      | TableC t \<Rightarrow>
          if b_type b = TTable then substituteVariables ev vars (generateTableMarkdown t)
          else if list_all (\<lambda>v. v_key v = []) vars then Some (Inr ''[object Object]'')
          else
            let v = hd (filter (\<lambda>v. v_key v \<noteq> []) vars) in
            (case key_pattern (v_key v) of
               None \<Rightarrow> None
             | Some (Inl e) \<Rightarrow> Some (Inl e)
             | Some (Inr as) \<Rightarrow>
                 (case (if str_includes (v_value v) ''{{'' \<and> str_includes (v_value v) ''}}''
                        then evaluateExpression ev vars (v_value v)
                        else Some (Inr (v_value v))) of
                    None \<Rightarrow> None
                  | Some (Inl e) \<Rightarrow> Some (Inl e)
                  | Some (Inr val) \<Rightarrow> Some (Inl TypeError))))"

text \<open>The blocks \<open>generateMarkdown\<close> visits, in order: a group contributes its members
  sorted by \<open>order || 0\<close>.\<close>

fun item_blocks :: "item \<Rightarrow> block list" where
  "item_blocks (BlockItem i b n) = [b]"
| "item_blocks (GroupItem j g members n) = sort_key ord0 members"

fun emit_blocks ::
  "(string \<Rightarrow> string option) \<Rightarrow> variable list \<Rightarrow> block list \<Rightarrow> string \<Rightarrow> (error + string) option" where
  "emit_blocks ev vars [] markdown = Some (Inr markdown)"
| "emit_blocks ev vars (b # bs) markdown =
     (case block_markdown ev vars b of
        None \<Rightarrow> None
      | Some (Inl e) \<Rightarrow> Some (Inl e)
      | Some (Inr content) \<Rightarrow>
          emit_blocks ev vars bs (markdown @ content @ [CHR 0x0A, CHR 0x0A]))"

text \<open>\<open>generateMarkdown\<close> (script.js 774-812).\<close>

definition generateMarkdown :: "(string \<Rightarrow> string option) \<Rightarrow> editor \<Rightarrow> (error + string) option" where
  "generateMarkdown ev s =
     (case emit_blocks ev (map snd (variables s))
             (concat (map item_blocks (getAllOrderedItems s))) [] of
        None \<Rightarrow> None
      | Some (Inl e) \<Rightarrow> Some (Inl e)
      | Some (Inr markdown) \<Rightarrow> Some (Inr (trim markdown)))"

text \<open>
  \<open>importMarkdown\<close> and \<open>finishCurrentBlock\<close> (script.js 886-934). \<open>mint k\<close> is the id
  minted for the \<open>k\<close>-th block that is finished. The objects the import builds have the
  fields \<open>type\<close>, \<open>content\<close> and \<open>id\<close> only. The result is the state the call leaves.
\<close>

definition finishCurrentBlock ::
  "(nat \<Rightarrow> string) \<Rightarrow> (block_type \<times> string) option \<Rightarrow> block list \<Rightarrow> block list" where
  "finishCurrentBlock mint cur bs =
     (case cur of
        None \<Rightarrow> bs
      | Some (ty, c) \<Rightarrow>
          bs @ [\<lparr>b_id = mint (length bs), b_type = ty, b_content = Text c,
                 b_groupId = None, b_selected = False, b_order = None\<rparr>])"

definition import_line ::
  "(nat \<Rightarrow> string) \<Rightarrow> string \<Rightarrow> block list \<times> (block_type \<times> string) option \<Rightarrow>
   block list \<times> (block_type \<times> string) option" where
  "import_line mint line st =
     (case st of (bs, currentBlock) \<Rightarrow>
        if startsWith line ''#'' then
          (finishCurrentBlock mint currentBlock bs, Some (THeading, line))
        else if startsWith line [CHR 0x60, CHR 0x60, CHR 0x60] then
          (case currentBlock of
             Some (TCode, c) \<Rightarrow>
               (finishCurrentBlock mint (Some (TCode, c @ [CHR 0x0A] @ line)) bs, None)
           | _ \<Rightarrow> (finishCurrentBlock mint currentBlock bs, Some (TCode, line)))
        else if startsWith line ''- '' \<or> startsWith line ''* '' then
          (case currentBlock of
             Some (TList, c) \<Rightarrow> (bs, Some (TList, c @ [CHR 0x0A] @ line))
           | _ \<Rightarrow> (finishCurrentBlock mint currentBlock bs, Some (TList, line)))
        else if trim line \<noteq> [] then
          (case currentBlock of
             Some (TParagraph, c) \<Rightarrow> (bs, Some (TParagraph, c @ [CHR 0x0A] @ line))
           | Some (TCode, c) \<Rightarrow> (bs, Some (TCode, c @ [CHR 0x0A] @ line))
           | Some (TList, c) \<Rightarrow> (bs, Some (TList, c @ [CHR 0x0A] @ line))
           | _ \<Rightarrow> (finishCurrentBlock mint currentBlock bs, Some (TParagraph, line)))
        else (bs, currentBlock))"

definition import_blocks :: "(nat \<Rightarrow> string) \<Rightarrow> string \<Rightarrow> block list" where
  "import_blocks mint markdown =
     (case fold (import_line mint) (split_lines markdown) ([], None) of
        (bs, currentBlock) \<Rightarrow> finishCurrentBlock mint currentBlock bs)"

definition importMarkdown :: "(nat \<Rightarrow> string) \<Rightarrow> string \<Rightarrow> editor \<Rightarrow> editor" where
  "importMarkdown mint markdown s = s\<lparr>blocks := import_blocks mint markdown\<rparr>"

section \<open>Refreshing the view\<close>

text \<open>
  Most methods end with \<open>renderAllContent()\<close> (or \<open>rerenderAllBlocks()\<close>, which calls
  it), \<open>updatePreview()\<close> and \<open>saveToStorage()\<close>. \<open>renderAllContent\<close> (script.js 81-123)
  builds the ordered list as \<open>getAllOrderedItems\<close> does and renders its blocks, the
  members of a group in the order of \<open>this.blocks\<close>; for a block of type table
  \<open>renderTableEditor\<close> (203-237) calls \<open>block.content.headers.forEach\<close>, a \<open>TypeError\<close>
  when the content is a string. \<open>updatePreview\<close> (838-842) calls \<open>generateMarkdown\<close>.
  The outcome of a call is \<open>Some (Inr ())\<close> when it returns, \<open>Some (Inl e)\<close> when it
  throws \<open>e\<close>, and \<open>None\<close> when a variable key is outside the modelled ones.
\<close>

fun item_members :: "item \<Rightarrow> block list" where
  "item_members (BlockItem i b n) = [b]"
| "item_members (GroupItem j g members n) = members"

definition renderAllContent :: "editor \<Rightarrow> error + unit" where
  "renderAllContent s =
     (if list_ex (\<lambda>b. b_type b = TTable \<and> (case b_content b of Text x \<Rightarrow> True | TableC t \<Rightarrow> False))
           (concat (map item_members (getAllOrderedItems s)))
      then Inl TypeError else Inr ())"

definition updatePreview :: "(string \<Rightarrow> string option) \<Rightarrow> editor \<Rightarrow> (error + unit) option" where
  "updatePreview ev s =
     (case generateMarkdown ev s of
        None \<Rightarrow> None
      | Some (Inl e) \<Rightarrow> Some (Inl e)
      | Some (Inr markdown) \<Rightarrow> Some (Inr ()))"

text \<open>\<open>renderAllContent(); updatePreview(); saveToStorage();\<close>\<close>

definition refresh :: "(string \<Rightarrow> string option) \<Rightarrow> editor \<Rightarrow> (error + unit) option" where
  "refresh ev s =
     (case renderAllContent s of
        Inl e \<Rightarrow> Some (Inl e)
      | Inr u \<Rightarrow> updatePreview ev s)"

text \<open>
  A document on which the refresh throws nothing: every block of type table holds a
  table and every other block holds text, and every variable key is made of pattern
  characters and dots.
\<close>

definition well_typed :: "block \<Rightarrow> bool" where
  "well_typed b \<longleftrightarrow>
     (case b_content b of Text x \<Rightarrow> b_type b \<noteq> TTable | TableC t \<Rightarrow> b_type b = TTable)"

definition plain_key :: "string \<Rightarrow> bool" where
  "plain_key key \<longleftrightarrow> list_all (\<lambda>c. c = CHR ''.'' \<or> \<not> syntax_char c) key"

definition plain_document :: "editor \<Rightarrow> bool" where
  "plain_document s \<longleftrightarrow>
     list_all well_typed (blocks s) \<and> list_all (\<lambda>(k, v). plain_key (v_key v)) (variables s)"

section \<open>Moving, deleting and ungrouping\<close>

text \<open>
  The result of each method below is the state the call leaves and the outcome of the
  call. A method that throws before it has written anything leaves the state as it was.

  \<open>moveBlockUp\<close> and \<open>moveBlockDown\<close> (script.js 358-406). An id that no block has
  makes them return at once. Inside a group the two blocks swap their raw \<open>order\<close>
  fields.
\<close>

definition moveBlockUp ::
  "(string \<Rightarrow> string option) \<Rightarrow> string \<Rightarrow> editor \<Rightarrow> editor \<times> (error + unit) option" where
  "moveBlockUp ev blockId s =
     (case find_pos (\<lambda>b. b_id b = blockId) (blocks s) of
        None \<Rightarrow> (s, Some (Inr ()))
      | Some i \<Rightarrow>
          let blk = blocks s ! i;
              s' =
                (if truthy (b_groupId blk) then
                   let groupBlocks = sorted_group_blocks blk s;
                       index = findIndex (\<lambda>(k, b). b_id b = blockId) groupBlocks
                   in if index > 0 then
                        let cur = groupBlocks ! nat index;
                            prev = groupBlocks ! nat (index - 1);
                            temp = b_order (snd cur)
                        in set_block_order (fst prev) temp
                             (set_block_order (fst cur) (b_order (snd prev)) s)
                      else s
                 else moveItemUp KBlock blockId s)
          in (s', refresh ev s'))"

definition moveBlockDown ::
  "(string \<Rightarrow> string option) \<Rightarrow> string \<Rightarrow> editor \<Rightarrow> editor \<times> (error + unit) option" where
  "moveBlockDown ev blockId s =
     (case find_pos (\<lambda>b. b_id b = blockId) (blocks s) of
        None \<Rightarrow> (s, Some (Inr ()))
      | Some i \<Rightarrow>
          let blk = blocks s ! i;
              moved =
                (if truthy (b_groupId blk) then
                   let groupBlocks = sorted_group_blocks blk s;
                       index = findIndex (\<lambda>(k, b). b_id b = blockId) groupBlocks
                   in if index < int (length groupBlocks) - 1 then
                        if index < 0 then Inl TypeError
                        else
                          let cur = groupBlocks ! nat index;
                              nxt = groupBlocks ! nat (index + 1);
                              temp = b_order (snd cur)
                          in Inr (set_block_order (fst nxt) temp
                               (set_block_order (fst cur) (b_order (snd nxt)) s))
                      else Inr s
                 else moveItemDown KBlock blockId s)
          in (case moved of
                Inl e \<Rightarrow> (s, Some (Inl e))
              | Inr s' \<Rightarrow> (s', refresh ev s')))"

text \<open>\<open>moveGroupUp\<close> and \<open>moveGroupDown\<close> (script.js 548-560).\<close>

definition moveGroupUp ::
  "(string \<Rightarrow> string option) \<Rightarrow> string \<Rightarrow> editor \<Rightarrow> editor \<times> (error + unit) option" where
  "moveGroupUp ev groupId s = (let s' = moveItemUp KGroup groupId s in (s', refresh ev s'))"

definition moveGroupDown ::
  "(string \<Rightarrow> string option) \<Rightarrow> string \<Rightarrow> editor \<Rightarrow> editor \<times> (error + unit) option" where
  "moveGroupDown ev groupId s =
     (case moveItemDown KGroup groupId s of
        Inl e \<Rightarrow> (s, Some (Inl e))
      | Inr s' \<Rightarrow> (s', refresh ev s'))"

text \<open>\<open>deleteBlock\<close> (script.js 490-495).\<close>

definition deleteBlock ::
  "(string \<Rightarrow> string option) \<Rightarrow> string \<Rightarrow> editor \<Rightarrow> editor \<times> (error + unit) option" where
  "deleteBlock ev blockId s =
     (let s' = s\<lparr>blocks := filter (\<lambda>b. b_id b \<noteq> blockId) (blocks s)\<rparr> in (s', refresh ev s'))"

text \<open>\<open>ungroupBlocks\<close> and \<open>deleteGroup\<close> (script.js 527-546).\<close>

definition ungroupBlocks ::
  "(string \<Rightarrow> string option) \<Rightarrow> string \<Rightarrow> editor \<Rightarrow> editor \<times> (error + unit) option" where
  "ungroupBlocks ev groupId s =
     (let s' = s\<lparr>blocks := map (\<lambda>b. if b_groupId b = Some groupId then b\<lparr>b_groupId := None\<rparr> else b)
                             (blocks s),
                 groups := map_delete groupId (groups s)\<rparr>
      in (s', refresh ev s'))"

definition deleteGroup ::
  "(string \<Rightarrow> string option) \<Rightarrow> string \<Rightarrow> editor \<Rightarrow> editor \<times> (error + unit) option" where
  "deleteGroup ev groupId s =
     (let s' = s\<lparr>blocks := filter (\<lambda>b. b_groupId b \<noteq> Some groupId) (blocks s),
                 groups := map_delete groupId (groups s)\<rparr>
      in (s', refresh ev s'))"

section \<open>Dragging\<close>

text \<open>
  \<open>splice(start, 0, x)\<close>, with the start clamped as in \<open>splice1\<close>.
\<close>

definition splice_in :: "int \<Rightarrow> 'a \<Rightarrow> 'a list \<Rightarrow> 'a list" where
  "splice_in start x xs =
     (let len = int (length xs);
          actualStart = (if start < 0 then max (len + start) 0 else min start len)
      in take (nat actualStart) xs @ x # drop (nat actualStart) xs)"

text \<open>
  \<open>handleDrop\<close> (script.js 339-356), for a dragged element that is not the target
  element, with the block ids the two elements carry: the dragged block is taken out of
  \<open>this.blocks\<close> and put in at the index the target had.
\<close>

definition handleDrop ::
  "(string \<Rightarrow> string option) \<Rightarrow> string \<Rightarrow> string \<Rightarrow> editor \<Rightarrow> editor \<times> (error + unit) option" where
  "handleDrop ev draggedId targetId s =
     (let draggedIndex = findIndex (\<lambda>b. b_id b = draggedId) (blocks s);
          targetIndex = findIndex (\<lambda>b. b_id b = targetId) (blocks s)
      in if draggedIndex \<noteq> - 1 \<and> targetIndex \<noteq> - 1 then
           let draggedBlock = blocks s ! nat draggedIndex;
               s' = s\<lparr>blocks := splice_in targetIndex draggedBlock
                                   (splice1 draggedIndex (blocks s))\<rparr>
           in (s', refresh ev s')
         else (s, Some (Inr ())))"

text \<open>
  \<open>handleGroupDrop\<close> (script.js 316-337), likewise on the entries of \<open>this.groups\<close>; an
  empty id is falsy. The keys of a \<open>Map\<close> are distinct, so that \<open>new Map\<close> keeps every
  entry of the array.
\<close>

definition handleGroupDrop ::
  "(string \<Rightarrow> string option) \<Rightarrow> string \<Rightarrow> string \<Rightarrow> editor \<Rightarrow> editor \<times> (error + unit) option" where
  "handleGroupDrop ev draggedGroupId targetGroupId s =
     (if draggedGroupId \<noteq> [] \<and> targetGroupId \<noteq> [] then
        let groupsArray = groups s;
            draggedIndex = findIndex (\<lambda>p. fst p = draggedGroupId) groupsArray;
            targetIndex = findIndex (\<lambda>p. fst p = targetGroupId) groupsArray
        in if draggedIndex \<noteq> - 1 \<and> targetIndex \<noteq> - 1 then
             let draggedGroup = groupsArray ! nat draggedIndex;
                 s' = s\<lparr>groups := splice_in targetIndex draggedGroup
                                     (splice1 draggedIndex groupsArray)\<rparr>
             in (s', refresh ev s')
           else (s, Some (Inr ()))
      else (s, Some (Inr ())))"

section \<open>Input handlers\<close>

text \<open>
  \<open>handleGroupNameChange\<close> (script.js 647-654), \<open>handleBlockInput\<close> (656-664) and
  \<open>handleTableInput\<close> (666-681), with the id and the value the event carries. The
  inputs of a table are rendered for its cells, with \<open>data-row\<close> \<open>-1\<close> for a header: a
  column index that is no index of the row is not modelled (the result is \<open>None\<close>). A
  row index that is no index of \<open>rows\<close> makes \<open>rows[row]\<close> \<open>undefined\<close>, and writing a
  property of it throws, as writing through the \<open>headers\<close> or \<open>rows\<close> of a string does.
\<close>

definition handleGroupNameChange :: "string \<Rightarrow> string \<Rightarrow> editor \<Rightarrow> editor" where
  "handleGroupNameChange groupId v s =
     (case find_pos (\<lambda>p. fst p = groupId) (groups s) of
        None \<Rightarrow> s
      | Some j \<Rightarrow>
          s\<lparr>groups := (groups s)[j := (fst (groups s ! j), (snd (groups s ! j))\<lparr>g_name := v\<rparr>)]\<rparr>)"

definition handleBlockInput ::
  "(string \<Rightarrow> string option) \<Rightarrow> string \<Rightarrow> string \<Rightarrow> editor \<Rightarrow> editor \<times> (error + unit) option" where
  "handleBlockInput ev blockId v s =
     (case find_pos (\<lambda>b. b_id b = blockId) (blocks s) of
        None \<Rightarrow> (s, Some (Inr ()))
      | Some i \<Rightarrow>
          let s' = s\<lparr>blocks := (blocks s)[i := (blocks s ! i)\<lparr>b_content := Text v\<rparr>]\<rparr>
          in (s', updatePreview ev s'))"

definition handleTableInput ::
  "(string \<Rightarrow> string option) \<Rightarrow> string \<Rightarrow> int \<Rightarrow> int \<Rightarrow> string \<Rightarrow> editor \<Rightarrow>
   (editor \<times> (error + unit) option) option" where
  "handleTableInput ev blockId row col v s =
     (case find_pos (\<lambda>b. b_id b = blockId) (blocks s) of
        None \<Rightarrow> Some (s, Some (Inr ()))
      | Some i \<Rightarrow>
          let blk = blocks s ! i in
          if b_type blk = TTable then
            (case b_content blk of
               Text x \<Rightarrow> Some (s, Some (Inl TypeError))
             | TableC t \<Rightarrow>
                 if row = - 1 then
                   if 0 \<le> col \<and> col < int (length (headers t)) then
                     let s' = s\<lparr>blocks := (blocks s)[i := blk\<lparr>b_content :=
                                TableC (t\<lparr>headers := (headers t)[nat col := v]\<rparr>)\<rparr>]\<rparr>
                     in Some (s', updatePreview ev s')
                   else None
                 else if 0 \<le> row \<and> row < int (length (rows t)) then
                   if 0 \<le> col \<and> col < int (length (rows t ! nat row)) then
                     let s' = s\<lparr>blocks := (blocks s)[i := blk\<lparr>b_content :=
                                TableC (t\<lparr>rows := (rows t)
                                  [nat row := (rows t ! nat row)[nat col := v]]\<rparr>)\<rparr>]\<rparr>
                     in Some (s', updatePreview ev s')
                   else None
                 else Some (s, Some (Inl TypeError)))
          else Some (s, Some (Inr ())))"

text \<open>
  \<open>addVariable\<close> (script.js 683-689), with the minted id as the argument
  \<open>variableId\<close>, \<open>handleVariableInput\<close> (716-726) and \<open>deleteVariable\<close> (728-733).
\<close>

definition addVariable ::
  "(string \<Rightarrow> string option) \<Rightarrow> string \<Rightarrow> string \<Rightarrow> string \<Rightarrow> editor \<Rightarrow>
   editor \<times> (error + unit) option" where
  "addVariable ev variableId key val s =
     (let s' = s\<lparr>variables := map_set variableId \<lparr>v_key = key, v_value = val\<rparr> (variables s)\<rparr>
      in (s', updatePreview ev s'))"

datatype field = FKey | FValue

definition handleVariableInput ::
  "(string \<Rightarrow> string option) \<Rightarrow> string \<Rightarrow> field \<Rightarrow> string \<Rightarrow> editor \<Rightarrow>
   editor \<times> (error + unit) option" where
  "handleVariableInput ev variableId fld v s =
     (case find_pos (\<lambda>p. fst p = variableId) (variables s) of
        None \<Rightarrow> (s, Some (Inr ()))
      | Some j \<Rightarrow>
          let var = snd (variables s ! j);
              var' = (case fld of FKey \<Rightarrow> var\<lparr>v_key := v\<rparr> | FValue \<Rightarrow> var\<lparr>v_value := v\<rparr>);
              s' = s\<lparr>variables := (variables s)[j := (fst (variables s ! j), var')]\<rparr>
          in (s', updatePreview ev s'))"

definition deleteVariable ::
  "(string \<Rightarrow> string option) \<Rightarrow> string \<Rightarrow> editor \<Rightarrow> editor \<times> (error + unit) option" where
  "deleteVariable ev variableId s =
     (let s' = s\<lparr>variables := map_delete variableId (variables s)\<rparr>
      in (s', updatePreview ev s'))"

section \<open>Loading\<close>

text \<open>
  \<open>loadFromStorage\<close> (script.js 946-990). \<open>stored\<close> is the document that
  \<open>saveToStorage\<close> wrote at an earlier visit, \<open>None\<close> when the storage has none. A stored
  document is read back, and a block without an order gets its index (JSON drops an
  \<open>undefined\<close> field). With no stored document the five variables and the three blocks of
  the first visit are created, with the ids \<open>vmint k\<close> and \<open>bmint k\<close> minted for them.
\<close>

definition loadFromStorage ::
  "(string \<Rightarrow> string option) \<Rightarrow> (nat \<Rightarrow> string) \<Rightarrow> (nat \<Rightarrow> string) \<Rightarrow> editor option \<Rightarrow>
   editor \<Rightarrow> editor" where
  "loadFromStorage ev vmint bmint stored s =
     (case stored of
        Some parsed \<Rightarrow>
          s\<lparr>blocks := map (\<lambda>(index, block).
                         if b_order block = None then block\<lparr>b_order := Some (int index)\<rparr>
                         else block)
                       (enumerate 0 (blocks parsed)),
            variables := variables parsed,
            groups := groups parsed,
            groupCounter := groupCounter parsed\<rparr>
      | None \<Rightarrow>
          addBlock (bmint 2) TTable None
            (addBlock (bmint 1) TParagraph None
              (addBlock (bmint 0) THeading None
                (fst (addVariable ev (vmint 4) ''total'' ''{{price}}*{{tax}}''
                  (fst (addVariable ev (vmint 3) ''tax'' ''0.2''
                    (fst (addVariable ev (vmint 2) ''price'' ''1000''
                      (fst (addVariable ev (vmint 1) ''release_date'' ''2024-10-26''
                        (fst (addVariable ev (vmint 0) ''product_name'' ''Awesome Gadget''
                          s)))))))))))))"

text \<open>
  \<open>new StructuredMarkdownEditor()\<close> (script.js 2-16): the constructor assigns the four
  fields and calls \<open>init\<close>, which loads; the \<open>updatePreview\<close> that follows writes no
  field.
\<close>

definition new_editor ::
  "(string \<Rightarrow> string option) \<Rightarrow> (nat \<Rightarrow> string) \<Rightarrow> (nat \<Rightarrow> string) \<Rightarrow> editor option \<Rightarrow> editor" where
  "new_editor ev vmint bmint stored = loadFromStorage ev vmint bmint stored constructor_state"

section \<open>Round trip through Markdown\<close>

text \<open>
  The line classes of \<open>importMarkdown\<close>: a heading line starts with \<open>#\<close>, a fence line
  with three backquotes, an item line with \<open>- \<close> or \<open>* \<close>; a blank line is white space only;
  a plain line is none of these.
\<close>

definition heading_line :: "string \<Rightarrow> bool" where
  "heading_line l \<longleftrightarrow> startsWith l ''#''"

definition fence_line :: "string \<Rightarrow> bool" where
  "fence_line l \<longleftrightarrow> startsWith l [CHR 0x60, CHR 0x60, CHR 0x60]"

definition item_line :: "string \<Rightarrow> bool" where
  "item_line l \<longleftrightarrow> startsWith l ''- '' \<or> startsWith l ''* ''"

definition nonblank :: "string \<Rightarrow> bool" where
  "nonblank l \<longleftrightarrow> trim l \<noteq> []"

definition plain_line :: "string \<Rightarrow> bool" where
  "plain_line l \<longleftrightarrow>
     nonblank l \<and> \<not> heading_line l \<and> \<not> fence_line l \<and> \<not> item_line l"

text \<open>Lines put together again with line feeds between them.\<close>

fun join_lines :: "string list \<Rightarrow> string" where
  "join_lines [] = []"
| "join_lines [l] = l"
| "join_lines (l # l' # ls) = l @ CHR 0x0A # join_lines (l' # ls)"

definition block_text :: "block \<Rightarrow> string" where
  "block_text b = (case b_content b of Text x \<Rightarrow> x | TableC t \<Rightarrow> [])"

text \<open>The text of a block with its blank lines taken out.\<close>

definition normalized :: "string \<Rightarrow> string" where
  "normalized x = join_lines (filter nonblank (split_lines x))"

text \<open>
  The non-blank lines a block of each type must have for the import to read it back as
  one block of that type: a heading is one heading line; a paragraph is plain lines; a
  list is an item line followed by non-blank lines that are neither heading nor fence
  lines; a code
  block is a fence line, plain lines and a fence line.
\<close>

fun canonical_lines :: "block_type \<Rightarrow> string list \<Rightarrow> bool" where
  "canonical_lines THeading ls \<longleftrightarrow> (case ls of [l] \<Rightarrow> heading_line l | _ \<Rightarrow> False)"
| "canonical_lines TParagraph ls \<longleftrightarrow> ls \<noteq> [] \<and> list_all plain_line ls"
| "canonical_lines TList ls \<longleftrightarrow>
     (case ls of
        [] \<Rightarrow> False
      | l # rest \<Rightarrow>
          item_line l \<and>
          list_all (\<lambda>x. nonblank x \<and> \<not> heading_line x \<and> \<not> fence_line x) rest)"
| "canonical_lines TCode ls \<longleftrightarrow>
     (case ls of
        [] \<Rightarrow> False
      | l # rest \<Rightarrow>
          fence_line l \<and> rest \<noteq> [] \<and> fence_line (last rest) \<and>
          list_all plain_line (butlast rest))"
| "canonical_lines TTable ls \<longleftrightarrow> False"

definition canonical :: "block \<Rightarrow> bool" where
  "canonical b \<longleftrightarrow>
     (case b_content b of
        Text x \<Rightarrow> canonical_lines (b_type b) (filter nonblank (split_lines x))
      | TableC t \<Rightarrow> False)"

text \<open>
  A block of type \<open>u\<close> right after a block of type \<open>t\<close> is read as a continuation of it:
  a paragraph after a paragraph or a list, a list after a list.
\<close>

definition merges :: "block_type \<Rightarrow> block_type \<Rightarrow> bool" where
  "merges t u \<longleftrightarrow> (u = TParagraph \<and> (t = TParagraph \<or> t = TList)) \<or> (u = TList \<and> t = TList)"

fun no_merge :: "block_type list \<Rightarrow> bool" where
  "no_merge [] \<longleftrightarrow> True"
| "no_merge [t] \<longleftrightarrow> True"
| "no_merge (t # u # ts) \<longleftrightarrow> \<not> merges t u \<and> no_merge (u # ts)"

text \<open>What the round trip compares: the type and the content of a block.\<close>

definition block_sig :: "block \<Rightarrow> block_type \<times> content" where
  "block_sig b = (b_type b, b_content b)"

definition normalized_sig :: "block \<Rightarrow> block_type \<times> content" where
  "normalized_sig b = (b_type b, Text (normalized (block_text b)))"

text \<open>Texts joined with an empty line between them.\<close>

fun doc_text :: "string list \<Rightarrow> string" where
  "doc_text [] = []"
| "doc_text [x] = x"
| "doc_text (x # y # r) = x @ [CHR 0x0A, CHR 0x0A] @ doc_text (y # r)"

text \<open>
  The block that is open after a block of type \<open>ty\<close> has been read (a code block is
  closed by its fence), and the blocks that can follow an open block without being
  merged into it.
\<close>

definition open_after :: "block_type \<Rightarrow> string \<Rightarrow> (block_type \<times> string) option" where
  "open_after ty x = (if ty = TCode then None else Some (ty, x))"

definition starts_block :: "(block_type \<times> string) option \<Rightarrow> block_type \<Rightarrow> bool" where
  "starts_block cur ty \<longleftrightarrow>
     (case cur of
        None \<Rightarrow> True
      | Some (t, x) \<Rightarrow> t \<noteq> TCode \<and> \<not> merges t ty)"

text \<open>
  A document that \<open>generateMarkdown\<close> followed by \<open>importMarkdown\<close> reproduces: no
  variables, no grouped block, canonical blocks, no merging neighbours in document
  order, and no white space at the very start or at the very end.
\<close>

definition document_order :: "editor \<Rightarrow> block list" where
  "document_order s = sort_key ord0 (blocks s)"

definition round_trip_doc :: "editor \<Rightarrow> bool" where
  "round_trip_doc s \<longleftrightarrow>
     variables s = [] \<and>
     list_all (\<lambda>b. b_groupId b = None) (blocks s) \<and>
     list_all canonical (blocks s) \<and>
     no_merge (map b_type (document_order s)) \<and>
     (case document_order s of
        [] \<Rightarrow> True
      | b # bs \<Rightarrow>
          \<not> is_space (hd (block_text b)) \<and>
          \<not> is_space (last (block_text (last (b # bs)))))"

text \<open>
  What every list of imported blocks satisfies: no group id, no order, not selected, and
  the \<open>k\<close>-th block has the \<open>k\<close>-th minted id.
\<close>

definition imported :: "(nat \<Rightarrow> string) \<Rightarrow> block list \<Rightarrow> bool" where
  "imported mint bs \<longleftrightarrow>
     list_all (\<lambda>b. b_groupId b = None \<and> b_order b = None \<and> \<not> b_selected b) bs \<and>
     map b_id bs = map mint [0..<length bs]"

section \<open>Reachable documents\<close>

text \<open>
  A call of a method that writes a field of the editor, with what the user's action and
  the host supply: the ids the elements carry, the values of the inputs, the minted ids.
  \<open>addBlock\<close> is called with a type alone.
\<close>

datatype call =
    AddBlock string block_type
  | HandleDrop string string
  | HandleGroupDrop string string
  | MoveBlockUp string
  | MoveBlockDown string
  | MoveGroupUp string
  | MoveGroupDown string
  | DeleteBlock string
  | GroupSelectedBlocks
  | UngroupBlocks string
  | DeleteGroup string
  | TableOp table_op
  | HandleBlockSelection string bool
  | HandleGroupNameChange string string
  | HandleBlockInput string string
  | HandleTableInput string int int string
  | AddVariable string string string
  | HandleVariableInput string field string
  | DeleteVariable string
  | ImportMarkdown "nat \<Rightarrow> string" string

text \<open>
  The state a call leaves, whether it returns or throws: the editor stays in use after
  an error. A table mutator that throws has written nothing. The state is \<open>None\<close> for a
  table input that is not modelled.
\<close>

fun effect :: "(string \<Rightarrow> string option) \<Rightarrow> call \<Rightarrow> editor \<Rightarrow> editor option" where
  "effect ev (AddBlock blockId ty) s = Some (addBlock blockId ty None s)"
| "effect ev (HandleDrop draggedId targetId) s = Some (fst (handleDrop ev draggedId targetId s))"
| "effect ev (HandleGroupDrop draggedId targetId) s =
     Some (fst (handleGroupDrop ev draggedId targetId s))"
| "effect ev (MoveBlockUp blockId) s = Some (fst (moveBlockUp ev blockId s))"
| "effect ev (MoveBlockDown blockId) s = Some (fst (moveBlockDown ev blockId s))"
| "effect ev (MoveGroupUp groupId) s = Some (fst (moveGroupUp ev groupId s))"
| "effect ev (MoveGroupDown groupId) s = Some (fst (moveGroupDown ev groupId s))"
| "effect ev (DeleteBlock blockId) s = Some (fst (deleteBlock ev blockId s))"
| "effect ev GroupSelectedBlocks s = Some (snd (groupSelectedBlocks s))"
| "effect ev (UngroupBlocks groupId) s = Some (fst (ungroupBlocks ev groupId s))"
| "effect ev (DeleteGroup groupId) s = Some (fst (deleteGroup ev groupId s))"
| "effect ev (TableOp x) s = Some (case apply_table_op x s of Inl e \<Rightarrow> s | Inr s' \<Rightarrow> s')"
| "effect ev (HandleBlockSelection blockId checked) s =
     Some (handleBlockSelection blockId checked s)"
| "effect ev (HandleGroupNameChange groupId v) s = Some (handleGroupNameChange groupId v s)"
| "effect ev (HandleBlockInput blockId v) s = Some (fst (handleBlockInput ev blockId v s))"
| "effect ev (HandleTableInput blockId row col v) s =
     map_option fst (handleTableInput ev blockId row col v s)"
| "effect ev (AddVariable variableId key val) s = Some (fst (addVariable ev variableId key val s))"
| "effect ev (HandleVariableInput variableId fld v) s =
     Some (fst (handleVariableInput ev variableId fld v s))"
| "effect ev (DeleteVariable variableId) s = Some (fst (deleteVariable ev variableId s))"
| "effect ev (ImportMarkdown mint markdown) s = Some (importMarkdown mint markdown s)"

text \<open>
  The documents an editor can hold: the one a first visit creates, the one a later visit
  loads (what an earlier visit saved), and what a call leaves. The minted ids are
  arbitrary here: the code takes them from the clock and a random number and compares
  them with nothing.
\<close>

inductive reachable :: "(string \<Rightarrow> string option) \<Rightarrow> editor \<Rightarrow> bool"
  for ev :: "string \<Rightarrow> string option" where
  r_first: "reachable ev (new_editor ev vmint bmint None)"
| r_again: "reachable ev s \<Longrightarrow> reachable ev (new_editor ev vmint bmint (Some s))"
| r_call: "reachable ev s \<Longrightarrow> effect ev c s = Some s' \<Longrightarrow> reachable ev s'"

text \<open>The ids of the blocks.\<close>

definition block_ids :: "editor \<Rightarrow> string list" where
  "block_ids s = map b_id (blocks s)"

text \<open>
  The block ids a call mints are new: the id of a created block is the id of no block of
  the document, and the ids minted during one import differ from one another.
\<close>

fun new_ids :: "call \<Rightarrow> editor \<Rightarrow> bool" where
  "new_ids (AddBlock blockId ty) s \<longleftrightarrow> blockId \<notin> set (block_ids s)"
| "new_ids (ImportMarkdown mint markdown) s \<longleftrightarrow>
     distinct (map mint [0..<length (import_blocks mint markdown)])"
| "new_ids c s \<longleftrightarrow> True"

text \<open>The documents reached when every minted block id was new.\<close>

inductive fresh_reachable :: "(string \<Rightarrow> string option) \<Rightarrow> editor \<Rightarrow> bool"
  for ev :: "string \<Rightarrow> string option" where
  f_first: "distinct (map bmint [0..<3]) \<Longrightarrow> fresh_reachable ev (new_editor ev vmint bmint None)"
| f_again: "fresh_reachable ev s \<Longrightarrow> fresh_reachable ev (new_editor ev vmint bmint (Some s))"
| f_call: "fresh_reachable ev s \<Longrightarrow> new_ids c s \<Longrightarrow> effect ev c s = Some s' \<Longrightarrow>
     fresh_reachable ev s'"

text \<open>
  The keys of the groups map with the \<open>id\<close> field of their groups; the invariant says
  that group keys are distinct and that every group is stored under its own id, which is
  \<open>group_n\<close> for a counter value \<open>n\<close> already used.
\<close>

definition group_keys :: "editor \<Rightarrow> (string \<times> string) list" where
  "group_keys s = map (\<lambda>(k, g). (k, g_id g)) (groups s)"

definition groups_inv :: "editor \<Rightarrow> bool" where
  "groups_inv s \<longleftrightarrow>
     distinct (map fst (group_keys s)) \<and>
     list_all (\<lambda>(k, i). i = k \<and> (\<exists>n < groupCounter s. k = ''group_'' @ string_of_nat n))
       (group_keys s)"

section \<open>Concrete documents\<close>

text \<open>A document with one table block, and a run of table mutator calls on it.\<close>

definition table_doc :: editor where
  "table_doc = addBlock ''t'' TTable None constructor_state"

definition table_calls :: "table_op list" where
  "table_calls = [DeleteRow ''t'' 0, DeleteRow ''t'' 5, DeleteRow ''t'' (- 1),
     DeleteColumn ''t'' (- 9), DeleteColumn ''t'' 1, DeleteColumn ''t'' 0,
     AddColumn ''t'', AddRow ''t'', DeleteColumn ''nope'' 0]"

text \<open>
  The three variables of the spec's example, in insertion order, and a host evaluator that
  knows the one product of the example.
\<close>

definition price_vars :: "variable list" where
  "price_vars =
     [\<lparr>v_key = ''price'', v_value = ''1000''\<rparr>,
      \<lparr>v_key = ''tax'', v_value = ''0.2''\<rparr>,
      \<lparr>v_key = ''total'', v_value = ''{{price}}*{{tax}}''\<rparr>]"

definition sample_eval :: "string \<Rightarrow> string option" where
  "sample_eval x = (if x = ''1000*0.2'' then Some ''200'' else None)"

text \<open>Two blocks are created, both are selected, and the selection is grouped.\<close>

definition grouped_pair :: editor where
  "grouped_pair =
     snd (groupSelectedBlocks
       (handleBlockSelection ''b'' True
         (handleBlockSelection ''a'' True
           (addBlock ''b'' TParagraph None
             (addBlock ''a'' THeading None constructor_state)))))"

text \<open>
  The ids a visit may mint: \<open>block_0\<close>, \<open>block_1\<close>, and so on for the blocks, \<open>var_0\<close>,
  \<open>var_1\<close>, and so on for the variables.
\<close>

definition sample_mint :: "nat \<Rightarrow> string" where
  "sample_mint k = ''block_'' @ string_of_nat k"

definition sample_vmint :: "nat \<Rightarrow> string" where
  "sample_vmint k = ''var_'' @ string_of_nat k"

text \<open>
  The document of a first visit: five variables, and a heading, a paragraph and a table
  with the orders 0, 1, 2.
\<close>

definition first_visit :: editor where
  "first_visit = new_editor sample_eval sample_vmint sample_mint None"

text \<open>
  The table is moved up, above the paragraph, and then the paragraph and the table are
  selected: the heading is not selected, the first selected block has order 2 and the
  second has order 1.
\<close>

definition last_two_selected :: editor where
  "last_two_selected =
     handleBlockSelection ''block_2'' True
       (handleBlockSelection ''block_1'' True
         (fst (moveBlockUp sample_eval ''block_2'' first_visit)))"

text \<open>The document of a first visit with the paragraph selected, and no other block.\<close>

definition one_selected :: editor where
  "one_selected = handleBlockSelection ''block_1'' True first_visit"

text \<open>The paragraph and the table, selected as above, are grouped.\<close>

definition last_two_grouped :: editor where
  "last_two_grouped = snd (groupSelectedBlocks last_two_selected)"

text \<open>Both members of that group are deleted: the group stays, with no member.\<close>

definition emptied_group :: editor where
  "emptied_group =
     fst (deleteBlock sample_eval ''block_2''
       (fst (deleteBlock sample_eval ''block_1'' last_two_grouped)))"

text \<open>In that document the key of the first variable is changed to an opening parenthesis.\<close>

definition paren_key_doc :: editor where
  "paren_key_doc = fst (handleVariableInput sample_eval ''var_0'' FKey ''('' emptied_group)"

text \<open>The id minted for a fourth block is the id of the heading.\<close>

definition same_id_twice :: editor where
  "same_id_twice = addBlock ''block_0'' TCode None first_visit"

text \<open>A Markdown text of two headings with a blank line between them.\<close>

definition two_headings :: string where
  "two_headings = ''# A'' @ [CHR 0x0A, CHR 0x0A] @ ''# B''"

text \<open>Two paragraph blocks.\<close>

definition two_paragraphs :: editor where
  "two_paragraphs =
     addBlock ''q'' TParagraph None (addBlock ''p'' TParagraph None constructor_state)"

text \<open>A heading, a paragraph, a code block and a list, each with its default content.\<close>

definition four_kinds :: editor where
  "four_kinds =
     addBlock ''l'' TList None
       (addBlock ''c'' TCode None
         (addBlock ''q'' TParagraph None
           (addBlock ''h'' THeading None constructor_state)))"

text \<open>The Markdown text \<open>generateMarkdown\<close> produces for the two paragraphs.\<close>

definition two_paragraphs_md :: string where
  "two_paragraphs_md =
     ''New paragraph content...'' @ [CHR 0x0A, CHR 0x0A] @ ''New paragraph content...''"

section \<open>Properties\<close>

subsection \<open>Lists, positions and splicing\<close>

lemma find_pos_Some: "find_pos P xs = Some i \<Longrightarrow> i < length xs \<and> P (xs ! i)"
  by (induction xs arbitrary: i) (auto split: if_splits option.splits)

lemma find_pos_None: "find_pos P xs = None \<longleftrightarrow> (\<forall>x\<in>set xs. \<not> P x)"
  by (induction xs) (auto split: if_splits option.splits)

lemma splice1_length_eq:
  "length (splice1 i xs) =
     (if (0 \<le> i \<and> i < int (length xs)) \<or> (i < 0 \<and> xs \<noteq> []) then length xs - 1 else length xs)"
  by (cases xs) (auto simp: splice1_def Let_def max_def min_def)

lemma splice1_length_pos: "Suc 0 < length xs \<Longrightarrow> Suc 0 \<le> length (splice1 i xs)"
  using splice1_length_eq [of i xs] by (auto split: if_splits)

lemma splice1_length_cong:
  "length xs = length ys \<Longrightarrow> length (splice1 i xs) = length (splice1 i ys)"
  by (cases xs; cases ys) (auto simp: splice1_length_eq)

lemma set_splice1: "set (splice1 i xs) \<subseteq> set xs"
  by (auto simp: splice1_def Let_def dest: in_set_takeD in_set_dropD)

lemma map_update_same:
  "f b' = f (xs ! i) \<Longrightarrow> map f (xs[i := b']) = map f xs"
  by (induction xs arbitrary: i) (auto split: nat.splits)

subsection \<open>The table invariant\<close>

lemma table_inv_addRow:
  "table_inv t \<Longrightarrow> table_inv (t\<lparr>rows := rows t @ [replicate (length (headers t)) []]\<rparr>)"
  by (simp add: table_inv_def)

lemma table_inv_addColumn:
  "table_inv t \<Longrightarrow>
   table_inv \<lparr>headers = headers t @ [''New Column''], rows = map (\<lambda>row. row @ [[]]) (rows t)\<rparr>"
  by (simp add: table_inv_def list_all_iff)

lemma table_inv_deleteRow:
  "table_inv t \<Longrightarrow> 1 < length (rows t) \<Longrightarrow> table_inv (t\<lparr>rows := splice1 i (rows t)\<rparr>)"
  using set_splice1 [of i "rows t"]
  by (auto simp: table_inv_def list_all_iff splice1_length_pos)

lemma table_inv_deleteColumn:
  "table_inv t \<Longrightarrow> 1 < length (headers t) \<Longrightarrow>
   table_inv \<lparr>headers = splice1 i (headers t), rows = map (splice1 i) (rows t)\<rparr>"
  by (auto simp: table_inv_def list_all_iff splice1_length_pos intro: splice1_length_cong)

lemma tables_inv_update:
  assumes "tables_inv s" "i < length (blocks s)"
    "b_content (blocks s ! i) = TableC t" "table_inv t'"
  shows "tables_inv (s\<lparr>blocks := (blocks s)[i := (blocks s ! i)\<lparr>b_content := TableC t'\<rparr>]\<rparr>)"
  using assms
  by (auto simp: tables_inv_def list_all_iff dest!: set_update_subset_insert [THEN subsetD])

lemma tables_inv_nth:
  "tables_inv s \<Longrightarrow> i < length (blocks s) \<Longrightarrow> b_type (blocks s ! i) = TTable \<Longrightarrow>
   \<exists>t. b_content (blocks s ! i) = TableC t \<and> table_inv t"
  by (cases "b_content (blocks s ! i)") (auto simp: tables_inv_def list_all_length)

lemma apply_table_op_inv:
  assumes "tables_inv s"
  shows "\<exists>s'. apply_table_op x s = Inr s' \<and> tables_inv s' \<and>
              map b_id (blocks s') = map b_id (blocks s)"
proof (cases x)
  case (AddRow b)
  show ?thesis
  proof (cases "find_pos (\<lambda>blk. b_id blk = b) (blocks s)")
    case None
    with AddRow assms show ?thesis by (simp add: addTableRow_def)
  next
    case (Some i)
    then have i: "i < length (blocks s)" by (simp add: find_pos_Some)
    show ?thesis
    proof (cases "b_type (blocks s ! i) = TTable")
      case False
      with AddRow Some assms show ?thesis by (simp add: addTableRow_def)
    next
      case True
      from tables_inv_nth [OF assms i True] obtain t where
        t: "b_content (blocks s ! i) = TableC t" "table_inv t" by blast
      from tables_inv_update [OF assms i t(1) table_inv_addRow [OF t(2)]]
      show ?thesis using AddRow Some True t(1)
        by (simp add: addTableRow_def map_update_same)
    qed
  qed
next
  case (AddColumn b)
  show ?thesis
  proof (cases "find_pos (\<lambda>blk. b_id blk = b) (blocks s)")
    case None
    with AddColumn assms show ?thesis by (simp add: addTableColumn_def)
  next
    case (Some i)
    then have i: "i < length (blocks s)" by (simp add: find_pos_Some)
    show ?thesis
    proof (cases "b_type (blocks s ! i) = TTable")
      case False
      with AddColumn Some assms show ?thesis by (simp add: addTableColumn_def)
    next
      case True
      from tables_inv_nth [OF assms i True] obtain t where
        t: "b_content (blocks s ! i) = TableC t" "table_inv t" by blast
      from tables_inv_update [OF assms i t(1) table_inv_addColumn [OF t(2)]]
      show ?thesis using AddColumn Some True t(1)
        by (simp add: addTableColumn_def map_update_same)
    qed
  qed
next
  case (DeleteRow b k)
  show ?thesis
  proof (cases "find_pos (\<lambda>blk. b_id blk = b) (blocks s)")
    case None
    with DeleteRow assms show ?thesis by (simp add: deleteTableRow_def)
  next
    case (Some i)
    then have i: "i < length (blocks s)" by (simp add: find_pos_Some)
    show ?thesis
    proof (cases "b_type (blocks s ! i) = TTable")
      case False
      with DeleteRow Some assms show ?thesis by (simp add: deleteTableRow_def)
    next
      case True
      from tables_inv_nth [OF assms i True] obtain t where
        t: "b_content (blocks s ! i) = TableC t" "table_inv t" by blast
      show ?thesis
      proof (cases "1 < length (rows t)")
        case False
        with DeleteRow Some True t(1) assms show ?thesis by (simp add: deleteTableRow_def)
      next
        case big: True
        from tables_inv_update [OF assms i t(1) table_inv_deleteRow [OF t(2) big]]
        show ?thesis using DeleteRow Some True t(1) big
          by (simp add: deleteTableRow_def map_update_same)
      qed
    qed
  qed
next
  case (DeleteColumn b k)
  show ?thesis
  proof (cases "find_pos (\<lambda>blk. b_id blk = b) (blocks s)")
    case None
    with DeleteColumn assms show ?thesis by (simp add: deleteTableColumn_def)
  next
    case (Some i)
    then have i: "i < length (blocks s)" by (simp add: find_pos_Some)
    show ?thesis
    proof (cases "b_type (blocks s ! i) = TTable")
      case False
      with DeleteColumn Some assms show ?thesis by (simp add: deleteTableColumn_def)
    next
      case True
      from tables_inv_nth [OF assms i True] obtain t where
        t: "b_content (blocks s ! i) = TableC t" "table_inv t" by blast
      show ?thesis
      proof (cases "1 < length (headers t)")
        case False
        with DeleteColumn Some True t(1) assms show ?thesis by (simp add: deleteTableColumn_def)
      next
        case big: True
        from tables_inv_update [OF assms i t(1) table_inv_deleteColumn [OF t(2) big]]
        show ?thesis using DeleteColumn Some True t(1) big
          by (simp add: deleteTableColumn_def map_update_same)
      qed
    qed
  qed
qed

lemma apply_table_ops_inv:
  "tables_inv s \<Longrightarrow> \<exists>s'. apply_table_ops xs s = Inr s' \<and> tables_inv s' \<and>
              map b_id (blocks s') = map b_id (blocks s)"
proof (induction xs arbitrary: s)
  case Nil
  then show ?case by simp
next
  case (Cons x xs)
  from apply_table_op_inv [OF Cons.prems, of x] obtain s1 where
    s1: "apply_table_op x s = Inr s1" "tables_inv s1" "map b_id (blocks s1) = map b_id (blocks s)"
    by blast
  from Cons.IH [OF s1(2)] s1 show ?case by auto
qed

text \<open>
  Claim C5. In a document whose table blocks satisfy the table invariant (every row as
  long as the header row, at least one row, at least one column), every finite sequence
  of \<open>addTableRow\<close>, \<open>addTableColumn\<close>, \<open>deleteTableRow\<close>, \<open>deleteTableColumn\<close>
  calls, with any block ids and any integer indices, returns without an exception and
  leaves the invariant true of every table block. \<open>deleteTableRow\<close> changes nothing when
  the table has exactly one row, and \<open>deleteTableColumn\<close> changes nothing when it has
  exactly one column.
\<close>

theorem C5_table_invariant:
  assumes "tables_inv s"
  shows "(\<exists>s'. apply_table_ops calls s = Inr s' \<and> tables_inv s') \<and>
         (\<forall>blockId rowIndex k t.
            find_pos (\<lambda>b. b_id b = blockId) (blocks s) = Some k \<and>
            b_content (blocks s ! k) = TableC t \<and> length (rows t) = 1
            \<longrightarrow> deleteTableRow blockId rowIndex s = Inr s) \<and>
         (\<forall>blockId colIndex k t.
            find_pos (\<lambda>b. b_id b = blockId) (blocks s) = Some k \<and>
            b_content (blocks s ! k) = TableC t \<and> length (headers t) = 1
            \<longrightarrow> deleteTableColumn blockId colIndex s = Inr s)"
proof (intro conjI allI impI)
  from apply_table_ops_inv [OF assms, of calls]
  show "\<exists>s'. apply_table_ops calls s = Inr s' \<and> tables_inv s'" by blast
next
  fix blockId rowIndex k t
  assume "find_pos (\<lambda>b. b_id b = blockId) (blocks s) = Some k \<and>
          b_content (blocks s ! k) = TableC t \<and> length (rows t) = 1"
  then show "deleteTableRow blockId rowIndex s = Inr s"
    by (simp add: deleteTableRow_def Let_def)
next
  fix blockId colIndex k t
  assume "find_pos (\<lambda>b. b_id b = blockId) (blocks s) = Some k \<and>
          b_content (blocks s ! k) = TableC t \<and> length (headers t) = 1"
  then show "deleteTableColumn blockId colIndex s = Inr s"
    by (simp add: deleteTableColumn_def Let_def)
qed

lemma table_doc_inv: "tables_inv table_doc"
  by (simp add: table_doc_def addBlock_def constructor_state_def tables_inv_def
      getDefaultContent_def table_inv_def)

theorem C5_table_invariant_witness:
  "tables_inv table_doc \<and>
   (\<exists>s'. apply_table_ops table_calls table_doc = Inr s' \<and> tables_inv s')"
  using C5_table_invariant [OF table_doc_inv, of table_calls] table_doc_inv by blast

subsection \<open>Creating and deleting blocks\<close>

lemma grouped_pair_eq:
  "grouped_pair =
    \<lparr>blocks =
      [\<lparr>b_id = ''a'', b_type = THeading, b_content = Text ''# New Heading'',
        b_groupId = Some ''group_0'', b_selected = False, b_order = Some 0\<rparr>,
       \<lparr>b_id = ''b'', b_type = TParagraph, b_content = Text ''New paragraph content...'',
        b_groupId = Some ''group_0'', b_selected = False, b_order = Some 1\<rparr>],
     variables = [],
     groups = [(''group_0'', \<lparr>g_id = ''group_0'', g_name = ''Group 1'', g_order = 0\<rparr>)],
     groupCounter = 1\<rparr>"
  by (simp add: grouped_pair_def groupSelectedBlocks_def selectedBlocks_def
      handleBlockSelection_def addBlock_def constructor_state_def getDefaultContent_def
      truthy_def ord0_def assign_to_group_def digit_char_def Let_def enumerate_eq_zip
      string_of_nat.simps)

lemma block_items_all:
  assumes "list_all (\<lambda>b. b_groupId b = None) (blocks s)"
  shows "length (block_items s) = length (blocks s)"
proof -
  have "filter (\<lambda>(i, b). \<not> truthy (b_groupId b)) (enumerate 0 (blocks s)) = enumerate 0 (blocks s)"
    using assms by (auto simp: list_all_iff filter_id_conv in_set_enumerate_eq truthy_def)
  then show ?thesis by (simp add: block_items_def)
qed

lemma group_items_none:
  assumes "list_all (\<lambda>b. b_groupId b = None) (blocks s)"
  shows "group_items s = []"
proof -
  have "\<And>k. filter (\<lambda>b. b_groupId b = Some k) (blocks s) = []"
    using assms by (auto simp: list_all_iff filter_empty_conv)
  then show ?thesis by (simp add: group_items_def split_def)
qed

lemma top_level_count_ungrouped:
  "list_all (\<lambda>b. b_groupId b = None) (blocks s) \<Longrightarrow>
   length (getAllOrderedItems s) = length (blocks s)"
  by (simp add: getAllOrderedItems_def block_items_all group_items_none)

text \<open>
  Claim C8 as stated fails: \<open>addBlock\<close> sets \<open>order\<close> to \<open>this.blocks.length\<close>, the
  number of all blocks, not to the number of top-level items. After two blocks have been
  grouped the document has one top-level item and two blocks, and the next block gets
  order 2.
\<close>

theorem C8_addBlock_order_counterexample:
  "b_order (last (blocks (addBlock ''c'' TList None grouped_pair))) = Some 2 \<and>
   length (getAllOrderedItems grouped_pair) = 1"
  by (simp add: grouped_pair_eq addBlock_def getAllOrderedItems_def block_items_def
      group_items_def truthy_def enumerate_eq_zip)

text \<open>
  Claim C8, amended. For every block type, \<open>addBlock(type)\<close> appends one block with the
  minted id, the default content of the type, \<open>groupId = null\<close>, \<open>selected = false\<close> and
  \<open>order\<close> equal to the number of blocks in the block list before the call, grouped
  blocks included; groups, variables and the group counter are unchanged. The order is
  the number of top-level items whenever no block of the document has a group id.
\<close>

theorem C8_addBlock:
  "blocks (addBlock blockId ty None s) =
     blocks s @ [\<lparr>b_id = blockId, b_type = ty, b_content = getDefaultContent ty,
                  b_groupId = None, b_selected = False,
                  b_order = Some (int (length (blocks s)))\<rparr>] \<and>
   groups (addBlock blockId ty None s) = groups s \<and>
   variables (addBlock blockId ty None s) = variables s \<and>
   groupCounter (addBlock blockId ty None s) = groupCounter s \<and>
   (list_all (\<lambda>b. b_groupId b = None) (blocks s) \<longrightarrow>
      b_order (last (blocks (addBlock blockId ty None s))) =
        Some (int (length (getAllOrderedItems s))))"
  by (simp add: addBlock_def top_level_count_ungrouped)

theorem C8_addBlock_witness:
  "list_all (\<lambda>b. b_groupId b = None) (blocks table_doc) \<and>
   b_order (last (blocks (addBlock ''n'' TCode None table_doc))) =
     Some (int (length (getAllOrderedItems table_doc))) \<and>
   length (getAllOrderedItems table_doc) = 1 \<and>
   b_content (last (blocks (addBlock ''n'' TCode None table_doc))) = getDefaultContent TCode"
proof -
  have h: "list_all (\<lambda>b. b_groupId b = None) (blocks table_doc)"
    by (simp add: table_doc_def addBlock_def constructor_state_def)
  have n: "length (blocks table_doc) = 1"
    by (simp add: table_doc_def addBlock_def constructor_state_def)
  from C8_addBlock [of "''n''" TCode table_doc] h n show ?thesis
    by (simp add: top_level_count_ungrouped)
qed

lemma filter_single_split:
  "filter P xs = [b] \<Longrightarrow> \<exists>ys zs. xs = ys @ b # zs \<and> filter (\<lambda>x. \<not> P x) xs = ys @ zs"
proof (induction xs)
  case Nil
  then show ?case by simp
next
  case (Cons x xs)
  show ?case
  proof (cases "P x")
    case True
    with Cons.prems have xb: "x = b" and e: "filter P xs = []" by auto
    from e have "filter (\<lambda>x. \<not> P x) xs = xs"
      by (auto simp: filter_empty_conv filter_id_conv)
    with True xb show ?thesis by (intro exI [of _ "[]"] exI [of _ xs]) simp
  next
    case False
    with Cons.prems have "filter P xs = [b]" by simp
    from Cons.IH [OF this] obtain ys zs where
      "xs = ys @ b # zs" "filter (\<lambda>x. \<not> P x) xs = ys @ zs" by blast
    with False show ?thesis by (intro exI [of _ "x # ys"] exI [of _ zs]) simp
  qed
qed

text \<open>The state each of these methods leaves.\<close>

lemma deleteBlock_state:
  "fst (deleteBlock ev blockId s) = s\<lparr>blocks := filter (\<lambda>b. b_id b \<noteq> blockId) (blocks s)\<rparr>"
  by (simp add: deleteBlock_def Let_def)

lemma deleteGroup_state:
  "fst (deleteGroup ev groupId s) =
     s\<lparr>blocks := filter (\<lambda>b. b_groupId b \<noteq> Some groupId) (blocks s),
       groups := map_delete groupId (groups s)\<rparr>"
  by (simp add: deleteGroup_def Let_def)

lemma ungroupBlocks_state:
  "fst (ungroupBlocks ev groupId s) =
     s\<lparr>blocks := map (\<lambda>b. if b_groupId b = Some groupId then b\<lparr>b_groupId := None\<rparr> else b)
                   (blocks s),
       groups := map_delete groupId (groups s)\<rparr>"
  by (simp add: ungroupBlocks_def Let_def)

lemma moveGroupUp_state: "fst (moveGroupUp ev groupId s) = moveItemUp KGroup groupId s"
  by (simp add: moveGroupUp_def Let_def)

text \<open>
  Claim C10. When exactly one block carries the given id, \<open>deleteBlock(id)\<close> removes that
  block and nothing else: the blocks before it and after it stay as they are, in order,
  and the groups (also a group that has lost its last member), the variables and the
  group counter are unchanged.
\<close>

theorem C10_deleteBlock_frame:
  assumes "filter (\<lambda>b. b_id b = blockId) (blocks s) = [blk]"
  shows "(\<exists>before after.
            blocks s = before @ blk # after \<and>
            blocks (fst (deleteBlock ev blockId s)) = before @ after) \<and>
         groups (fst (deleteBlock ev blockId s)) = groups s \<and>
         variables (fst (deleteBlock ev blockId s)) = variables s \<and>
         groupCounter (fst (deleteBlock ev blockId s)) = groupCounter s"
  using filter_single_split [OF assms] by (simp add: deleteBlock_state)

theorem C10_deleteBlock_frame_witness:
  "filter (\<lambda>b. b_id b = ''b'') (blocks grouped_pair) = [blocks grouped_pair ! 1] \<and>
   blocks (fst (deleteBlock sample_eval ''b'' (fst (deleteBlock sample_eval ''a'' grouped_pair)))) =
     [] \<and>
   groups (fst (deleteBlock sample_eval ''b'' (fst (deleteBlock sample_eval ''a'' grouped_pair)))) =
     groups grouped_pair \<and>
   groups grouped_pair \<noteq> [] \<and>
   (\<exists>before after.
      blocks grouped_pair = before @ (blocks grouped_pair ! 1) # after \<and>
      blocks (fst (deleteBlock sample_eval ''b'' grouped_pair)) = before @ after)"
proof -
  have h: "filter (\<lambda>b. b_id b = ''b'') (blocks grouped_pair) = [blocks grouped_pair ! 1]"
    by (simp add: grouped_pair_eq)
  from C10_deleteBlock_frame [OF h, of sample_eval] h show ?thesis
    by (simp add: grouped_pair_eq deleteBlock_state)
qed

subsection \<open>Operations on an id that identifies nothing\<close>

lemma findIndex_none: "list_all (\<lambda>x. \<not> P x) xs \<Longrightarrow> findIndex P xs = - 1"
  by (simp add: findIndex_def find_pos_None [THEN iffD2] list_all_iff)

lemma set_getAllOrderedItems:
  "set (getAllOrderedItems s) = set (block_items s) \<union> set (group_items s)"
  by (simp add: getAllOrderedItems_def)

lemma block_items_kind: "it \<in> set (block_items s) \<Longrightarrow> item_type it = KBlock"
  by (auto simp: block_items_def)

lemma group_items_member:
  "it \<in> set (group_items s) \<Longrightarrow>
   \<exists>j k g. (k, g) \<in> set (groups s) \<and> j < length (groups s) \<and> groups s ! j = (k, g) \<and>
     filter (\<lambda>b. b_groupId b = Some k) (blocks s) \<noteq> [] \<and>
     it = GroupItem j g (filter (\<lambda>b. b_groupId b = Some k) (blocks s)) (g_order g)"
  by (auto simp: group_items_def Let_def in_set_enumerate_eq split: if_splits)
     (metis nth_mem)

lemma block_items_member:
  "it \<in> set (block_items s) \<Longrightarrow>
   \<exists>i. i < length (blocks s) \<and> \<not> truthy (b_groupId (blocks s ! i)) \<and>
     it = BlockItem i (blocks s ! i) (ord0 (blocks s ! i))"
  by (auto simp: block_items_def in_set_enumerate_eq)

lemma moveItemUp_missing_block:
  assumes "list_all (\<lambda>b. b_id b \<noteq> i) (blocks s)"
  shows "findIndex (\<lambda>it. item_type it = KBlock \<and> item_id it = i) (getAllOrderedItems s) = - 1"
proof (rule findIndex_none, unfold list_all_iff, intro ballI)
  fix it assume "it \<in> set (getAllOrderedItems s)"
  then consider "it \<in> set (block_items s)" | "it \<in> set (group_items s)"
    by (auto simp: set_getAllOrderedItems)
  then show "\<not> (item_type it = KBlock \<and> item_id it = i)"
  proof cases
    case 1
    from block_items_member [OF 1] assms show ?thesis
      by (auto simp: list_all_length)
  next
    case 2
    from group_items_member [OF 2] show ?thesis by auto
  qed
qed

lemma missing_group_index:
  assumes "list_all (\<lambda>(k, g). g_id g = i \<longrightarrow>
             filter (\<lambda>b. b_groupId b = Some k) (blocks s) = []) (groups s)"
  shows "findIndex (\<lambda>it. item_type it = KGroup \<and> item_id it = i) (getAllOrderedItems s) = - 1"
proof (rule findIndex_none, unfold list_all_iff, intro ballI)
  fix it assume "it \<in> set (getAllOrderedItems s)"
  then consider "it \<in> set (block_items s)" | "it \<in> set (group_items s)"
    by (auto simp: set_getAllOrderedItems)
  then show "\<not> (item_type it = KGroup \<and> item_id it = i)"
  proof cases
    case 1
    then show ?thesis by (simp add: block_items_kind)
  next
    case 2
    from group_items_member [OF 2] assms show ?thesis
      by (auto simp: list_all_iff)
  qed
qed

lemma find_pos_missing: "list_all (\<lambda>b. b_id b \<noteq> i) bs \<Longrightarrow> find_pos (\<lambda>b. b_id b = i) bs = None"
  by (simp add: find_pos_None list_all_iff)

lemma filter_all: "list_all P xs \<Longrightarrow> filter P xs = xs"
  by (simp add: list_all_iff filter_id_conv)

lemma map_delete_absent: "k \<notin> fst ` set ps \<Longrightarrow> map_delete k ps = ps"
  by (auto simp: map_delete_def filter_id_conv)

subsection \<open>The documents of the examples\<close>

lemma sample_ids:
  "sample_mint 0 = ''block_0''" "sample_mint (Suc 0) = ''block_1''"
  "sample_mint 2 = ''block_2''"
  "sample_vmint 0 = ''var_0''" "sample_vmint (Suc 0) = ''var_1''" "sample_vmint 2 = ''var_2''"
  "sample_vmint 3 = ''var_3''" "sample_vmint 4 = ''var_4''"
  by code_simp+

lemma first_visit_eq:
  "first_visit =
    \<lparr>blocks =
      [\<lparr>b_id = ''block_0'', b_type = THeading, b_content = getDefaultContent THeading,
        b_groupId = None, b_selected = False, b_order = Some 0\<rparr>,
       \<lparr>b_id = ''block_1'', b_type = TParagraph, b_content = getDefaultContent TParagraph,
        b_groupId = None, b_selected = False, b_order = Some 1\<rparr>,
       \<lparr>b_id = ''block_2'', b_type = TTable, b_content = getDefaultContent TTable,
        b_groupId = None, b_selected = False, b_order = Some 2\<rparr>],
     variables =
      [(''var_0'', \<lparr>v_key = ''product_name'', v_value = ''Awesome Gadget''\<rparr>),
       (''var_1'', \<lparr>v_key = ''release_date'', v_value = ''2024-10-26''\<rparr>),
       (''var_2'', \<lparr>v_key = ''price'', v_value = ''1000''\<rparr>),
       (''var_3'', \<lparr>v_key = ''tax'', v_value = ''0.2''\<rparr>),
       (''var_4'', \<lparr>v_key = ''total'', v_value = ''{{price}}*{{tax}}''\<rparr>)],
     groups = [], groupCounter = 0\<rparr>"
  unfolding first_visit_def new_editor_def loadFromStorage_def
  by (simp add: addVariable_def Let_def addBlock_def constructor_state_def sample_ids)

lemma last_two_selected_eq:
  "last_two_selected =
    first_visit\<lparr>blocks :=
      [\<lparr>b_id = ''block_0'', b_type = THeading, b_content = getDefaultContent THeading,
        b_groupId = None, b_selected = False, b_order = Some 0\<rparr>,
       \<lparr>b_id = ''block_1'', b_type = TParagraph, b_content = getDefaultContent TParagraph,
        b_groupId = None, b_selected = True, b_order = Some 2\<rparr>,
       \<lparr>b_id = ''block_2'', b_type = TTable, b_content = getDefaultContent TTable,
        b_groupId = None, b_selected = True, b_order = Some 1\<rparr>]\<rparr>"
  unfolding last_two_selected_def first_visit_eq
  by (simp add: moveBlockUp_def Let_def truthy_def moveItemUp_def getAllOrderedItems_def
      block_items_def group_items_def ord0_def findIndex_def enumerate_eq_zip
      set_block_order_def handleBlockSelection_def)

lemma last_two_grouped_eq:
  "last_two_grouped =
    first_visit\<lparr>blocks :=
      [\<lparr>b_id = ''block_0'', b_type = THeading, b_content = getDefaultContent THeading,
        b_groupId = None, b_selected = False, b_order = Some 0\<rparr>,
       \<lparr>b_id = ''block_1'', b_type = TParagraph, b_content = getDefaultContent TParagraph,
        b_groupId = Some ''group_0'', b_selected = False, b_order = Some 0\<rparr>,
       \<lparr>b_id = ''block_2'', b_type = TTable, b_content = getDefaultContent TTable,
        b_groupId = Some ''group_0'', b_selected = False, b_order = Some 1\<rparr>],
     groups := [(''group_0'', \<lparr>g_id = ''group_0'', g_name = ''Group 1'', g_order = 1\<rparr>)],
     groupCounter := 1\<rparr>"
  unfolding last_two_grouped_def last_two_selected_eq first_visit_eq
  by (simp add: groupSelectedBlocks_def selectedBlocks_def Let_def truthy_def ord0_def
      enumerate_eq_zip assign_to_group_def string_of_nat.simps [of 0]
      string_of_nat.simps [of "Suc 0"] digit_char_def)

lemma emptied_group_eq:
  "emptied_group =
    first_visit\<lparr>blocks :=
      [\<lparr>b_id = ''block_0'', b_type = THeading, b_content = getDefaultContent THeading,
        b_groupId = None, b_selected = False, b_order = Some 0\<rparr>],
     groups := [(''group_0'', \<lparr>g_id = ''group_0'', g_name = ''Group 1'', g_order = 1\<rparr>)],
     groupCounter := 1\<rparr>"
  unfolding emptied_group_def last_two_grouped_eq first_visit_eq
  by (simp add: deleteBlock_def Let_def)

lemma paren_key_doc_eq:
  "paren_key_doc =
    emptied_group\<lparr>variables :=
      [(''var_0'', \<lparr>v_key = ''('', v_value = ''Awesome Gadget''\<rparr>),
       (''var_1'', \<lparr>v_key = ''release_date'', v_value = ''2024-10-26''\<rparr>),
       (''var_2'', \<lparr>v_key = ''price'', v_value = ''1000''\<rparr>),
       (''var_3'', \<lparr>v_key = ''tax'', v_value = ''0.2''\<rparr>),
       (''var_4'', \<lparr>v_key = ''total'', v_value = ''{{price}}*{{tax}}''\<rparr>)]\<rparr>"
  unfolding paren_key_doc_def emptied_group_eq first_visit_eq
  by (simp add: handleVariableInput_def Let_def)

lemma one_selected_eq:
  "one_selected =
    first_visit\<lparr>blocks :=
      [\<lparr>b_id = ''block_0'', b_type = THeading, b_content = getDefaultContent THeading,
        b_groupId = None, b_selected = False, b_order = Some 0\<rparr>,
       \<lparr>b_id = ''block_1'', b_type = TParagraph, b_content = getDefaultContent TParagraph,
        b_groupId = None, b_selected = True, b_order = Some 1\<rparr>,
       \<lparr>b_id = ''block_2'', b_type = TTable, b_content = getDefaultContent TTable,
        b_groupId = None, b_selected = False, b_order = Some 2\<rparr>]\<rparr>"
  unfolding one_selected_def first_visit_eq by (simp add: handleBlockSelection_def)

lemma same_id_twice_eq:
  "same_id_twice =
    first_visit\<lparr>blocks := blocks first_visit @
      [\<lparr>b_id = ''block_0'', b_type = TCode, b_content = getDefaultContent TCode,
        b_groupId = None, b_selected = False, b_order = Some 3\<rparr>]\<rparr>"
  unfolding same_id_twice_def by (simp add: addBlock_def first_visit_eq)

subsection \<open>Documents on which the refresh returns\<close>

lemma pattern_atoms_plain: "plain_key key \<Longrightarrow> \<exists>as. pattern_atoms key = Some as"
  by (induction key) (auto simp: plain_key_def)

lemma key_pattern_plain: "plain_key key \<Longrightarrow> \<exists>as. key_pattern key = Some (Inr as)"
  using pattern_atoms_plain [of key] by (auto simp: key_pattern_def)

lemma eval_subst_plain:
  "list_all (\<lambda>v. plain_key (v_key v)) vs \<Longrightarrow> \<exists>x. eval_subst vs r = Some (Inr x)"
proof (induction vs arbitrary: r)
  case Nil
  show ?case by simp
next
  case (Cons v vs)
  from Cons.prems have "plain_key (v_key v)" by simp
  from key_pattern_plain [OF this] obtain as where "key_pattern (v_key v) = Some (Inr as)" ..
  with Cons.IH Cons.prems show ?case by (simp add: replace_key_def)
qed

lemma evaluateExpression_plain:
  "list_all (\<lambda>v. plain_key (v_key v)) vars \<Longrightarrow>
   \<exists>x. evaluateExpression ev vars e = Some (Inr x)"
  using eval_subst_plain [of vars e]
  by (auto simp: evaluateExpression_def Let_def split: option.splits)

lemma subst_loop_plain:
  assumes "list_all (\<lambda>v. plain_key (v_key v)) all"
  shows "list_all (\<lambda>v. plain_key (v_key v)) vs \<Longrightarrow>
         \<exists>x. subst_loop ev all vs r = Some (Inr x)"
proof (induction vs arbitrary: r)
  case Nil
  show ?case by simp
next
  case (Cons v vs)
  from Cons.prems have "plain_key (v_key v)" by simp
  from key_pattern_plain [OF this] obtain as where k: "key_pattern (v_key v) = Some (Inr as)" ..
  from evaluateExpression_plain [OF assms, of ev "v_value v"]
  obtain x where x: "evaluateExpression ev all (v_value v) = Some (Inr x)" ..
  from Cons.prems have "list_all (\<lambda>v. plain_key (v_key v)) vs" by simp
  note ih = Cons.IH [OF this]
  show ?case using k x ih by simp
qed

lemma substituteVariables_plain:
  "list_all (\<lambda>v. plain_key (v_key v)) vars \<Longrightarrow>
   \<exists>x. substituteVariables ev vars text = Some (Inr x)"
  unfolding substituteVariables_def by (rule subst_loop_plain)

lemma block_markdown_plain:
  "well_typed b \<Longrightarrow> list_all (\<lambda>v. plain_key (v_key v)) vars \<Longrightarrow>
   \<exists>x. block_markdown ev vars b = Some (Inr x)"
  by (cases "b_content b") (simp_all add: block_markdown_def well_typed_def substituteVariables_plain)

lemma emit_blocks_plain:
  assumes "list_all (\<lambda>v. plain_key (v_key v)) vars"
  shows "list_all well_typed bs \<Longrightarrow> \<exists>x. emit_blocks ev vars bs acc = Some (Inr x)"
proof (induction bs arbitrary: acc)
  case Nil
  show ?case by simp
next
  case (Cons b bs)
  from Cons.prems have "well_typed b" by simp
  from block_markdown_plain [OF this assms, of ev]
  obtain x where "block_markdown ev vars b = Some (Inr x)" ..
  with Cons.IH Cons.prems show ?case by simp
qed

lemma item_blocks_subset:
  "set (concat (map item_blocks (getAllOrderedItems s))) \<subseteq> set (blocks s)"
proof
  fix b assume "b \<in> set (concat (map item_blocks (getAllOrderedItems s)))"
  then obtain it where it: "it \<in> set (getAllOrderedItems s)" and b: "b \<in> set (item_blocks it)"
    by auto
  from it consider "it \<in> set (block_items s)" | "it \<in> set (group_items s)"
    by (auto simp: set_getAllOrderedItems)
  then show "b \<in> set (blocks s)"
  proof cases
    case 1
    from block_items_member [OF 1] b show ?thesis by auto
  next
    case 2
    from group_items_member [OF 2] b show ?thesis by auto
  qed
qed

lemma item_members_subset:
  "set (concat (map item_members (getAllOrderedItems s))) \<subseteq> set (blocks s)"
proof
  fix b assume "b \<in> set (concat (map item_members (getAllOrderedItems s)))"
  then obtain it where it: "it \<in> set (getAllOrderedItems s)" and b: "b \<in> set (item_members it)"
    by auto
  from it consider "it \<in> set (block_items s)" | "it \<in> set (group_items s)"
    by (auto simp: set_getAllOrderedItems)
  then show "b \<in> set (blocks s)"
  proof cases
    case 1
    from block_items_member [OF 1] b show ?thesis by auto
  next
    case 2
    from group_items_member [OF 2] b show ?thesis by auto
  qed
qed

lemma refresh_plain_document:
  assumes "plain_document s"
  shows "refresh ev s = Some (Inr ())"
proof -
  from assms have w: "list_all well_typed (blocks s)"
    and k: "list_all (\<lambda>v. plain_key (v_key v)) (map snd (variables s))"
    by (auto simp: plain_document_def list_all_iff)
  from w item_members_subset [of s]
  have "\<not> list_ex (\<lambda>b. b_type b = TTable \<and> (case b_content b of Text x \<Rightarrow> True | TableC t \<Rightarrow> False))
           (concat (map item_members (getAllOrderedItems s)))"
    unfolding list_ex_iff list_all_iff
    by (auto simp: well_typed_def split: content.splits)
  then have r: "renderAllContent s = Inr ()" by (simp add: renderAllContent_def)
  from w item_blocks_subset [of s]
  have "list_all well_typed (concat (map item_blocks (getAllOrderedItems s)))"
    unfolding list_all_iff by blast
  from emit_blocks_plain [OF k this, of ev "[]"]
  have "updatePreview ev s = Some (Inr ())"
    by (auto simp: updatePreview_def generateMarkdown_def)
  with r show ?thesis by (simp add: refresh_def)
qed

subsection \<open>The methods on a missing id\<close>

text \<open>
  What \<open>moveGroupDown\<close> does with the id of no group that has a member: it refreshes the
  view when the document has no top-level item, and otherwise it throws.
\<close>

lemma moveGroupDown_missing:
  assumes "list_all (\<lambda>(k, g). g_id g = i \<longrightarrow>
             filter (\<lambda>b. b_groupId b = Some k) (blocks s) = []) (groups s)"
  shows "moveGroupDown ev i s =
           (if getAllOrderedItems s = [] then (s, refresh ev s) else (s, Some (Inl TypeError)))"
  using missing_group_index [OF assms]
  by (cases "getAllOrderedItems s") (simp_all add: moveGroupDown_def moveItemDown_def Let_def)

text \<open>
  Claim C2 as stated fails. In the first visit's document after two of its blocks were
  grouped and deleted, the group \<open>group_0\<close> has no member: its id is the id of no block
  and of no group with members, yet \<open>deleteGroup\<close> and \<open>ungroupBlocks\<close> remove the
  group's entry from the groups map; and \<open>moveGroupDown\<close>, with that id or with an id
  that occurs nowhere, throws a \<open>TypeError\<close>. When the key of a variable is \<open>(\<close>,
  \<open>deleteBlock\<close> with an id that occurs nowhere leaves the state as it is and throws a
  \<open>SyntaxError\<close>: the refresh that ends it builds a regular expression from the key.
\<close>

theorem C2_missing_id_counterexample:
  "list_all (\<lambda>b. b_id b \<noteq> ''group_0'') (blocks emptied_group) \<and>
   filter (\<lambda>b. b_groupId b = Some ''group_0'') (blocks emptied_group) = [] \<and>
   map fst (groups emptied_group) = [''group_0''] \<and>
   groups (fst (deleteGroup sample_eval ''group_0'' emptied_group)) = [] \<and>
   groups (fst (ungroupBlocks sample_eval ''group_0'' emptied_group)) = [] \<and>
   moveGroupDown sample_eval ''group_0'' emptied_group =
     (emptied_group, Some (Inl TypeError)) \<and>
   moveGroupDown sample_eval ''no such id'' emptied_group =
     (emptied_group, Some (Inl TypeError)) \<and>
   map (\<lambda>(k, v). v_key v) (variables paren_key_doc) =
     [''('', ''release_date'', ''price'', ''tax'', ''total''] \<and>
   list_all (\<lambda>b. b_id b \<noteq> ''no such id'') (blocks paren_key_doc) \<and>
   deleteBlock sample_eval ''no such id'' paren_key_doc =
     (paren_key_doc, Some (Inl SyntaxError))"
proof -
  have 1: "list_all (\<lambda>b. b_id b \<noteq> ''group_0'') (blocks emptied_group)"
    unfolding emptied_group_eq first_visit_eq by code_simp
  have 2: "filter (\<lambda>b. b_groupId b = Some ''group_0'') (blocks emptied_group) = []"
    unfolding emptied_group_eq first_visit_eq by code_simp
  have 3: "map fst (groups emptied_group) = [''group_0'']"
    unfolding emptied_group_eq first_visit_eq by code_simp
  have 4: "groups (fst (deleteGroup sample_eval ''group_0'' emptied_group)) = []"
    unfolding emptied_group_eq first_visit_eq by code_simp
  have 5: "groups (fst (ungroupBlocks sample_eval ''group_0'' emptied_group)) = []"
    unfolding emptied_group_eq first_visit_eq by code_simp
  have 6: "moveGroupDown sample_eval ''group_0'' emptied_group =
      (emptied_group, Some (Inl TypeError))"
    unfolding emptied_group_eq first_visit_eq by code_simp
  have 7: "moveGroupDown sample_eval ''no such id'' emptied_group =
      (emptied_group, Some (Inl TypeError))"
    unfolding emptied_group_eq first_visit_eq by code_simp
  have 8: "map (\<lambda>(k, v). v_key v) (variables paren_key_doc) =
      [''('', ''release_date'', ''price'', ''tax'', ''total'']"
    unfolding paren_key_doc_eq emptied_group_eq first_visit_eq by code_simp
  have 9: "list_all (\<lambda>b. b_id b \<noteq> ''no such id'') (blocks paren_key_doc)"
    unfolding paren_key_doc_eq emptied_group_eq first_visit_eq by code_simp
  have 10: "deleteBlock sample_eval ''no such id'' paren_key_doc =
      (paren_key_doc, Some (Inl SyntaxError))"
    unfolding paren_key_doc_eq emptied_group_eq first_visit_eq by code_simp
  from 1 2 3 4 5 6 7 8 9 10 show ?thesis by simp
qed

text \<open>
  Claim C2, amended. With an id that no block carries, \<open>moveBlockUp\<close>, \<open>moveBlockDown\<close>
  and the four table mutators return at once: the state is unchanged and nothing is
  thrown; \<open>deleteBlock\<close> leaves the state unchanged and ends as the refresh of the view
  ends on it. With an id that is the id of no group that has a member, \<open>moveGroupUp\<close>
  does the same. With an id that is the group id of no block, \<open>deleteGroup\<close> and
  \<open>ungroupBlocks\<close> change at most the groups map, from which they delete the key, and end
  as the refresh ends on that state; when the id is not a key of the groups map either,
  the state is unchanged. The refresh throws nothing on a document in which every table
  block holds a table, every other block holds text, and every variable key is made of
  pattern characters and dots: there none of these calls throws.
  (\<open>moveGroupDown\<close> is not part of the amended claim.)
\<close>

theorem C2_missing_id_noop:
  "(list_all (\<lambda>b. b_id b \<noteq> i) (blocks s) \<longrightarrow>
      moveBlockUp ev i s = (s, Some (Inr ())) \<and> moveBlockDown ev i s = (s, Some (Inr ())) \<and>
      addTableRow i s = Inr s \<and> addTableColumn i s = Inr s \<and>
      deleteTableRow i n s = Inr s \<and> deleteTableColumn i n s = Inr s \<and>
      deleteBlock ev i s = (s, refresh ev s)) \<and>
   (list_all (\<lambda>(k, g). g_id g = i \<longrightarrow>
        filter (\<lambda>b. b_groupId b = Some k) (blocks s) = []) (groups s) \<longrightarrow>
      moveGroupUp ev i s = (s, refresh ev s)) \<and>
   (list_all (\<lambda>b. b_groupId b \<noteq> Some i) (blocks s) \<longrightarrow>
      deleteGroup ev i s =
        (s\<lparr>groups := map_delete i (groups s)\<rparr>, refresh ev (s\<lparr>groups := map_delete i (groups s)\<rparr>)) \<and>
      ungroupBlocks ev i s =
        (s\<lparr>groups := map_delete i (groups s)\<rparr>, refresh ev (s\<lparr>groups := map_delete i (groups s)\<rparr>))) \<and>
   (list_all (\<lambda>b. b_groupId b \<noteq> Some i) (blocks s) \<and> i \<notin> fst ` set (groups s) \<longrightarrow>
      deleteGroup ev i s = (s, refresh ev s) \<and> ungroupBlocks ev i s = (s, refresh ev s)) \<and>
   (list_all well_typed (blocks s) \<and>
    list_all (\<lambda>(k, v). list_all (\<lambda>c. c = CHR ''.'' \<or> \<not> syntax_char c) (v_key v)) (variables s) \<longrightarrow>
      refresh ev s = Some (Inr ()) \<and>
      refresh ev (s\<lparr>groups := map_delete i (groups s)\<rparr>) = Some (Inr ()))"
proof (intro conjI impI)
  assume a: "list_all (\<lambda>b. b_id b \<noteq> i) (blocks s)"
  note n = find_pos_missing [OF a]
  show "moveBlockUp ev i s = (s, Some (Inr ()))" by (simp add: moveBlockUp_def n)
  show "moveBlockDown ev i s = (s, Some (Inr ()))" by (simp add: moveBlockDown_def n)
  show "deleteBlock ev i s = (s, refresh ev s)"
    by (simp add: deleteBlock_def Let_def filter_all [OF a])
  show "addTableRow i s = Inr s" by (simp add: addTableRow_def n)
  show "addTableColumn i s = Inr s" by (simp add: addTableColumn_def n)
  show "deleteTableRow i n s = Inr s" by (simp add: deleteTableRow_def n)
  show "deleteTableColumn i n s = Inr s" by (simp add: deleteTableColumn_def n)
next
  assume "list_all (\<lambda>(k, g). g_id g = i \<longrightarrow>
            filter (\<lambda>b. b_groupId b = Some k) (blocks s) = []) (groups s)"
  from missing_group_index [OF this] show "moveGroupUp ev i s = (s, refresh ev s)"
    by (simp add: moveGroupUp_def moveItemUp_def Let_def)
next
  assume a: "list_all (\<lambda>b. b_groupId b \<noteq> Some i) (blocks s)"
  show "deleteGroup ev i s =
      (s\<lparr>groups := map_delete i (groups s)\<rparr>, refresh ev (s\<lparr>groups := map_delete i (groups s)\<rparr>))"
    by (simp add: deleteGroup_def Let_def filter_all [OF a])
  have "map (\<lambda>b. if b_groupId b = Some i then b\<lparr>b_groupId := None\<rparr> else b) (blocks s) = blocks s"
    using a by (simp add: list_all_iff map_idI)
  then show "ungroupBlocks ev i s =
      (s\<lparr>groups := map_delete i (groups s)\<rparr>, refresh ev (s\<lparr>groups := map_delete i (groups s)\<rparr>))"
    by (simp add: ungroupBlocks_def Let_def)
next
  assume a: "list_all (\<lambda>b. b_groupId b \<noteq> Some i) (blocks s) \<and> i \<notin> fst ` set (groups s)"
  then have a1: "list_all (\<lambda>b. b_groupId b \<noteq> Some i) (blocks s)" by simp
  from a have d: "map_delete i (groups s) = groups s" by (simp add: map_delete_absent)
  show "deleteGroup ev i s = (s, refresh ev s)"
    by (simp add: deleteGroup_def Let_def filter_all [OF a1] d)
  have "map (\<lambda>b. if b_groupId b = Some i then b\<lparr>b_groupId := None\<rparr> else b) (blocks s) = blocks s"
    using a1 by (simp add: list_all_iff map_idI)
  then show "ungroupBlocks ev i s = (s, refresh ev s)"
    by (simp add: ungroupBlocks_def Let_def d)
next
  assume "list_all well_typed (blocks s) \<and>
    list_all (\<lambda>(k, v). list_all (\<lambda>c. c = CHR ''.'' \<or> \<not> syntax_char c) (v_key v)) (variables s)"
  then have p: "plain_document s" by (simp add: plain_document_def plain_key_def)
  then have "plain_document (s\<lparr>groups := map_delete i (groups s)\<rparr>)"
    by (simp add: plain_document_def)
  with p show "refresh ev s = Some (Inr ())"
    "refresh ev (s\<lparr>groups := map_delete i (groups s)\<rparr>) = Some (Inr ())"
    by (simp_all add: refresh_plain_document)
qed

theorem C2_missing_id_noop_witness:
  "list_all (\<lambda>b. b_id b \<noteq> ''group_0'') (blocks emptied_group) \<and>
   list_all (\<lambda>(k, g). g_id g = ''group_0'' \<longrightarrow>
      filter (\<lambda>b. b_groupId b = Some k) (blocks emptied_group) = []) (groups emptied_group) \<and>
   list_all (\<lambda>b. b_groupId b \<noteq> Some ''group_0'') (blocks emptied_group) \<and>
   list_all (\<lambda>b. b_groupId b \<noteq> Some ''group_7'') (blocks emptied_group) \<and>
   ''group_7'' \<notin> fst ` set (groups emptied_group) \<and>
   list_all well_typed (blocks emptied_group) \<and>
   list_all (\<lambda>(k, v). list_all (\<lambda>c. c = CHR ''.'' \<or> \<not> syntax_char c) (v_key v))
     (variables emptied_group) \<and>
   length (blocks emptied_group) = 1 \<and> length (variables emptied_group) = 5 \<and>
   moveBlockUp sample_eval ''group_0'' emptied_group = (emptied_group, Some (Inr ())) \<and>
   moveBlockDown sample_eval ''group_0'' emptied_group = (emptied_group, Some (Inr ())) \<and>
   deleteBlock sample_eval ''group_0'' emptied_group = (emptied_group, Some (Inr ())) \<and>
   deleteTableRow ''group_0'' 0 emptied_group = Inr emptied_group \<and>
   moveGroupUp sample_eval ''group_0'' emptied_group = (emptied_group, Some (Inr ())) \<and>
   deleteGroup sample_eval ''group_7'' emptied_group = (emptied_group, Some (Inr ())) \<and>
   ungroupBlocks sample_eval ''group_7'' emptied_group = (emptied_group, Some (Inr ())) \<and>
   deleteGroup sample_eval ''group_0'' emptied_group =
     (emptied_group\<lparr>groups := []\<rparr>, Some (Inr ()))"
proof -
  have h1: "list_all (\<lambda>b. b_id b \<noteq> ''group_0'') (blocks emptied_group)"
    unfolding emptied_group_eq first_visit_eq by code_simp
  have h2: "list_all (\<lambda>(k, g). g_id g = ''group_0'' \<longrightarrow>
      filter (\<lambda>b. b_groupId b = Some k) (blocks emptied_group) = []) (groups emptied_group)"
    unfolding emptied_group_eq first_visit_eq by code_simp
  have h3: "list_all (\<lambda>b. b_groupId b \<noteq> Some ''group_7'') (blocks emptied_group)"
    unfolding emptied_group_eq first_visit_eq by code_simp
  have h4: "''group_7'' \<notin> fst ` set (groups emptied_group)"
    unfolding emptied_group_eq first_visit_eq by code_simp
  have h5: "list_all (\<lambda>b. b_groupId b \<noteq> Some ''group_0'') (blocks emptied_group)"
    unfolding emptied_group_eq first_visit_eq by code_simp
  have h6: "list_all well_typed (blocks emptied_group)"
    unfolding emptied_group_eq first_visit_eq by code_simp
  have h7: "list_all (\<lambda>(k, v). list_all (\<lambda>c. c = CHR ''.'' \<or> \<not> syntax_char c) (v_key v))
     (variables emptied_group)"
    unfolding emptied_group_eq first_visit_eq by code_simp
  have n: "length (blocks emptied_group) = 1" "length (variables emptied_group) = 5"
    unfolding emptied_group_eq first_visit_eq by code_simp+
  have g: "map_delete ''group_0'' (groups emptied_group) = []"
    unfolding emptied_group_eq first_visit_eq by code_simp
  from C2_missing_id_noop [of "''group_0''" emptied_group sample_eval 0]
       C2_missing_id_noop [of "''group_7''" emptied_group sample_eval 0]
       h1 h2 h3 h4 h5 h6 h7 n g map_delete_absent [OF h4]
  show ?thesis by simp
qed

subsection \<open>Imported blocks\<close>

lemma imported_finish: "imported mint bs \<Longrightarrow> imported mint (finishCurrentBlock mint cur bs)"
  by (auto simp: imported_def finishCurrentBlock_def split: option.splits)

lemma imported_line:
  "imported mint (fst st) \<Longrightarrow> imported mint (fst (import_line mint line st))"
  by (auto simp: import_line_def imported_finish
      split: prod.splits option.splits block_type.splits)

lemma imported_fold:
  "imported mint (fst st) \<Longrightarrow> imported mint (fst (fold (import_line mint) ls st))"
  by (induction ls arbitrary: st) (simp_all add: imported_line)

lemma imported_import_blocks: "imported mint (import_blocks mint markdown)"
proof -
  have "imported mint (fst ([], None))" by (simp add: imported_def)
  from imported_fold [OF this, of "split_lines markdown"] show ?thesis
    by (cases "fold (import_line mint) (split_lines markdown) ([], None)")
       (simp add: import_blocks_def imported_finish)
qed

subsection \<open>Invariants of reachable documents\<close>

lemma set_block_order_frame [simp]:
  "block_ids (set_block_order i v s) = block_ids s"
  "group_keys (set_block_order i v s) = group_keys s"
  "groupCounter (set_block_order i v s) = groupCounter s"
  by (simp_all add: set_block_order_def block_ids_def group_keys_def map_update_same)

lemma set_group_order_frame [simp]:
  "block_ids (set_group_order j v s) = block_ids s"
  "group_keys (set_group_order j v s) = group_keys s"
  "groupCounter (set_group_order j v s) = groupCounter s"
  by (simp_all add: set_group_order_def block_ids_def group_keys_def map_update_same split_def)

lemma set_item_order_frame [simp]:
  "block_ids (set_item_order it v s) = block_ids s"
  "group_keys (set_item_order it v s) = group_keys s"
  "groupCounter (set_item_order it v s) = groupCounter s"
  by (cases it; simp)+

lemma moveItemUp_frame [simp]:
  "block_ids (moveItemUp k i s) = block_ids s"
  "group_keys (moveItemUp k i s) = group_keys s"
  "groupCounter (moveItemUp k i s) = groupCounter s"
  by (simp_all add: moveItemUp_def Let_def)

lemma moveItemDown_frame:
  "moveItemDown k i s = Inr s' \<Longrightarrow>
   block_ids s' = block_ids s \<and> group_keys s' = group_keys s \<and> groupCounter s' = groupCounter s"
  by (auto simp: moveItemDown_def Let_def split: if_splits)

lemma assign_to_group_frame [simp]:
  "block_ids (assign_to_group gid e st) = block_ids st"
  "groups (assign_to_group gid e st) = groups st"
  "variables (assign_to_group gid e st) = variables st"
  "groupCounter (assign_to_group gid e st) = groupCounter st"
  by (simp_all add: assign_to_group_def block_ids_def map_update_same split: prod.splits)

lemma fold_assign_frame [simp]:
  "block_ids (fold (assign_to_group gid) es st) = block_ids st"
  "groups (fold (assign_to_group gid) es st) = groups st"
  "variables (fold (assign_to_group gid) es st) = variables st"
  "groupCounter (fold (assign_to_group gid) es st) = groupCounter st"
  by (induction es arbitrary: st; simp)+

lemma map_set_keys:
  "map fst (map_set k v ps) = (if k \<in> fst ` set ps then map fst ps else map fst ps @ [k])"
  by (induction ps) auto

lemma set_map_set: "set (map_set k v ps) \<subseteq> insert (k, v) (set ps)"
  by (induction ps) auto

lemma map_set_fresh: "k \<notin> fst ` set ps \<Longrightarrow> map_set k v ps = ps @ [(k, v)]"
  by (induction ps) auto

lemma group_keys_fst: "map fst (group_keys s) = map fst (groups s)"
  by (simp add: group_keys_def split_def)

lemma moveBlockUp_frame [simp]:
  "block_ids (fst (moveBlockUp ev i s)) = block_ids s"
  "group_keys (fst (moveBlockUp ev i s)) = group_keys s"
  "groupCounter (fst (moveBlockUp ev i s)) = groupCounter s"
  by (simp_all add: moveBlockUp_def Let_def split: option.splits)

lemma moveBlockDown_frame [simp]:
  "block_ids (fst (moveBlockDown ev i s)) = block_ids s"
  "group_keys (fst (moveBlockDown ev i s)) = group_keys s"
  "groupCounter (fst (moveBlockDown ev i s)) = groupCounter s"
  by (auto simp: moveBlockDown_def Let_def dest: moveItemDown_frame
      split: if_splits option.splits sum.splits)

lemma moveGroupUp_frame [simp]:
  "block_ids (fst (moveGroupUp ev i s)) = block_ids s"
  "group_keys (fst (moveGroupUp ev i s)) = group_keys s"
  "groupCounter (fst (moveGroupUp ev i s)) = groupCounter s"
  by (simp_all add: moveGroupUp_state)

lemma moveGroupDown_frame [simp]:
  "block_ids (fst (moveGroupDown ev i s)) = block_ids s"
  "group_keys (fst (moveGroupDown ev i s)) = group_keys s"
  "groupCounter (fst (moveGroupDown ev i s)) = groupCounter s"
  by (auto simp: moveGroupDown_def dest: moveItemDown_frame split: sum.splits)

lemma apply_table_op_frame:
  "apply_table_op x s = Inr s' \<Longrightarrow>
   block_ids s' = block_ids s \<and> groups s' = groups s \<and> groupCounter s' = groupCounter s"
  by (cases x)
     (auto simp: addTableRow_def addTableColumn_def deleteTableRow_def deleteTableColumn_def
        Let_def block_ids_def map_update_same
        split: option.splits if_splits content.splits)

lemma handleBlockSelection_frame [simp]:
  "block_ids (handleBlockSelection i c s) = block_ids s"
  "groups (handleBlockSelection i c s) = groups s"
  "groupCounter (handleBlockSelection i c s) = groupCounter s"
  by (simp_all add: handleBlockSelection_def block_ids_def map_update_same split: option.splits)

lemma handleBlockInput_frame [simp]:
  "block_ids (fst (handleBlockInput ev i v s)) = block_ids s"
  "groups (fst (handleBlockInput ev i v s)) = groups s"
  "groupCounter (fst (handleBlockInput ev i v s)) = groupCounter s"
  by (simp_all add: handleBlockInput_def Let_def block_ids_def map_update_same
      split: option.splits)

lemma handleTableInput_frame:
  "handleTableInput ev i row col v s = Some r \<Longrightarrow>
   block_ids (fst r) = block_ids s \<and> groups (fst r) = groups s \<and>
   groupCounter (fst r) = groupCounter s"
  by (auto simp: handleTableInput_def Let_def block_ids_def map_update_same
      split: option.splits if_splits content.splits)

lemma handleGroupNameChange_frame [simp]:
  "block_ids (handleGroupNameChange g v s) = block_ids s"
  "group_keys (handleGroupNameChange g v s) = group_keys s"
  "groupCounter (handleGroupNameChange g v s) = groupCounter s"
  by (simp_all add: handleGroupNameChange_def block_ids_def group_keys_def map_update_same
      split_def split: option.splits)

lemma variable_frame [simp]:
  "blocks (fst (addVariable ev i k v s)) = blocks s"
  "groups (fst (addVariable ev i k v s)) = groups s"
  "groupCounter (fst (addVariable ev i k v s)) = groupCounter s"
  "blocks (fst (handleVariableInput ev i f v s)) = blocks s"
  "groups (fst (handleVariableInput ev i f v s)) = groups s"
  "groupCounter (fst (handleVariableInput ev i f v s)) = groupCounter s"
  "blocks (fst (deleteVariable ev i s)) = blocks s"
  "groups (fst (deleteVariable ev i s)) = groups s"
  "groupCounter (fst (deleteVariable ev i s)) = groupCounter s"
  by (simp_all add: addVariable_def handleVariableInput_def deleteVariable_def Let_def
      split: option.splits)

text \<open>Taking an element out of a list and putting it in again.\<close>

lemma set_insert_middle: "set (as @ x # bs) = insert x (set (as @ bs))"
  by auto

lemma distinct_insert_middle:
  "distinct (map f (as @ x # bs)) \<longleftrightarrow>
     f x \<notin> f ` set (as @ bs) \<and> distinct (map f (as @ bs))"
  by auto

lemma splice_in_set: "set (splice_in t x ys) = insert x (set ys)"
proof -
  have "set (take n ys @ x # drop n ys) = insert x (set ys)" for n
    using set_insert_middle [of "take n ys" x "drop n ys"] by (simp only: append_take_drop_id)
  then show ?thesis by (simp only: splice_in_def Let_def)
qed

lemma splice_in_distinct:
  "distinct (map f (splice_in t x ys)) \<longleftrightarrow> f x \<notin> f ` set ys \<and> distinct (map f ys)"
proof -
  have "distinct (map f (take n ys @ x # drop n ys)) \<longleftrightarrow>
      f x \<notin> f ` set ys \<and> distinct (map f ys)" for n
    using distinct_insert_middle [of f "take n ys" x "drop n ys"]
    by (simp only: append_take_drop_id)
  then show ?thesis by (simp only: splice_in_def Let_def)
qed

lemma splice1_nth: "i < length xs \<Longrightarrow> splice1 (int i) xs = take i xs @ drop (Suc i) xs"
  by (simp add: splice1_def Let_def min_def)

lemma splice_again_set:
  assumes "i < length xs"
  shows "set (splice_in t (xs ! i) (splice1 (int i) xs)) = set xs"
proof -
  have "set (take i xs @ xs ! i # drop (Suc i) xs) =
      insert (xs ! i) (set (take i xs @ drop (Suc i) xs))"
    by (rule set_insert_middle)
  moreover from assms have "take i xs @ xs ! i # drop (Suc i) xs = xs"
    by (rule id_take_nth_drop [symmetric])
  ultimately have "set xs = insert (xs ! i) (set (take i xs @ drop (Suc i) xs))"
    by (simp only:)
  then show ?thesis by (simp only: splice_in_set splice1_nth [OF assms])
qed

lemma splice_again_distinct:
  assumes "i < length xs"
  shows "distinct (map f (splice_in t (xs ! i) (splice1 (int i) xs))) = distinct (map f xs)"
proof -
  have "distinct (map f (take i xs @ xs ! i # drop (Suc i) xs)) \<longleftrightarrow>
      f (xs ! i) \<notin> f ` set (take i xs @ drop (Suc i) xs) \<and>
      distinct (map f (take i xs @ drop (Suc i) xs))"
    by (rule distinct_insert_middle)
  moreover from assms have "take i xs @ xs ! i # drop (Suc i) xs = xs"
    by (rule id_take_nth_drop [symmetric])
  ultimately have "distinct (map f xs) \<longleftrightarrow>
      f (xs ! i) \<notin> f ` set (take i xs @ drop (Suc i) xs) \<and>
      distinct (map f (take i xs @ drop (Suc i) xs))"
    by (simp only:)
  then show ?thesis by (simp only: splice_in_distinct splice1_nth [OF assms])
qed

lemma findIndex_found:
  "findIndex P xs \<noteq> - 1 \<Longrightarrow> \<exists>i. findIndex P xs = int i \<and> i < length xs"
  by (auto simp: findIndex_def dest: find_pos_Some split: option.splits)

lemma handleDrop_frame:
  "set (blocks (fst (handleDrop ev d t s))) = set (blocks s)"
  "distinct (block_ids (fst (handleDrop ev d t s))) = distinct (block_ids s)"
  "groups (fst (handleDrop ev d t s)) = groups s"
  "groupCounter (fst (handleDrop ev d t s)) = groupCounter s"
proof -
  show "set (blocks (fst (handleDrop ev d t s))) = set (blocks s)"
  proof (cases "findIndex (\<lambda>b. b_id b = d) (blocks s) \<noteq> - 1")
    case True
    from findIndex_found [OF this] obtain i where
      "findIndex (\<lambda>b. b_id b = d) (blocks s) = int i" "i < length (blocks s)" by blast
    then show ?thesis by (simp add: handleDrop_def Let_def splice_again_set)
  next
    case False
    then show ?thesis by (simp add: handleDrop_def Let_def)
  qed
  show "distinct (block_ids (fst (handleDrop ev d t s))) = distinct (block_ids s)"
  proof (cases "findIndex (\<lambda>b. b_id b = d) (blocks s) \<noteq> - 1")
    case True
    from findIndex_found [OF this] obtain i where
      "findIndex (\<lambda>b. b_id b = d) (blocks s) = int i" "i < length (blocks s)" by blast
    then show ?thesis by (simp add: handleDrop_def Let_def block_ids_def splice_again_distinct)
  next
    case False
    then show ?thesis by (simp add: handleDrop_def Let_def)
  qed
  show "groups (fst (handleDrop ev d t s)) = groups s"
    by (simp add: handleDrop_def Let_def)
  show "groupCounter (fst (handleDrop ev d t s)) = groupCounter s"
    by (simp add: handleDrop_def Let_def)
qed

lemma handleGroupDrop_frame:
  "blocks (fst (handleGroupDrop ev d t s)) = blocks s"
  "set (groups (fst (handleGroupDrop ev d t s))) = set (groups s)"
  "distinct (map fst (groups (fst (handleGroupDrop ev d t s)))) = distinct (map fst (groups s))"
  "groupCounter (fst (handleGroupDrop ev d t s)) = groupCounter s"
proof -
  show "blocks (fst (handleGroupDrop ev d t s)) = blocks s"
    by (simp add: handleGroupDrop_def Let_def)
  show "groupCounter (fst (handleGroupDrop ev d t s)) = groupCounter s"
    by (simp add: handleGroupDrop_def Let_def)
  show "set (groups (fst (handleGroupDrop ev d t s))) = set (groups s)"
  proof (cases "findIndex (\<lambda>p. fst p = d) (groups s) \<noteq> - 1")
    case True
    from findIndex_found [OF this] obtain i where
      "findIndex (\<lambda>p. fst p = d) (groups s) = int i" "i < length (groups s)" by blast
    then show ?thesis by (simp add: handleGroupDrop_def Let_def splice_again_set)
  next
    case False
    then show ?thesis by (simp add: handleGroupDrop_def Let_def)
  qed
  show "distinct (map fst (groups (fst (handleGroupDrop ev d t s)))) =
      distinct (map fst (groups s))"
  proof (cases "findIndex (\<lambda>p. fst p = d) (groups s) \<noteq> - 1")
    case True
    from findIndex_found [OF this] obtain i where
      "findIndex (\<lambda>p. fst p = d) (groups s) = int i" "i < length (groups s)" by blast
    then show ?thesis by (simp add: handleGroupDrop_def Let_def splice_again_distinct)
  next
    case False
    then show ?thesis by (simp add: handleGroupDrop_def Let_def)
  qed
qed

text \<open>Loading a stored document keeps the ids, the groups and the counter.\<close>

lemma map_enumerate_ids:
  "map (\<lambda>p. b_id (case p of (index, block) \<Rightarrow>
       if b_order block = None then block\<lparr>b_order := Some (int index)\<rparr> else block))
     (enumerate n bs) = map b_id bs"
  by (induction bs arbitrary: n) auto

lemma load_stored_frame:
  "block_ids (new_editor ev vmint bmint (Some s)) = block_ids s"
  "groups (new_editor ev vmint bmint (Some s)) = groups s"
  "groupCounter (new_editor ev vmint bmint (Some s)) = groupCounter s"
  "variables (new_editor ev vmint bmint (Some s)) = variables s"
  by (simp_all add: new_editor_def loadFromStorage_def block_ids_def comp_def map_enumerate_ids)

lemma first_visit_frame:
  "block_ids (new_editor ev vmint bmint None) = [bmint 0, bmint 1, bmint 2]"
  "groups (new_editor ev vmint bmint None) = []"
  "groupCounter (new_editor ev vmint bmint None) = 0"
  by (simp_all add: new_editor_def loadFromStorage_def block_ids_def addBlock_def
      constructor_state_def)

subsection \<open>The group invariant\<close>

lemma groups_inv_cong:
  "distinct (map fst (groups s')) = distinct (map fst (groups s)) \<Longrightarrow>
   set (group_keys s') = set (group_keys s) \<Longrightarrow>
   groupCounter s' = groupCounter s \<Longrightarrow> groups_inv s \<Longrightarrow> groups_inv s'"
  by (simp add: groups_inv_def list_all_iff group_keys_fst)

lemma groups_inv_same:
  "group_keys s' = group_keys s \<Longrightarrow> groupCounter s' = groupCounter s \<Longrightarrow>
   groups_inv s \<Longrightarrow> groups_inv s'"
  by (simp add: groups_inv_def)

lemma groups_inv_groups:
  "groups s' = groups s \<Longrightarrow> groupCounter s' = groupCounter s \<Longrightarrow>
   groups_inv s \<Longrightarrow> groups_inv s'"
  by (simp add: groups_inv_def group_keys_def)

lemma groups_inv_delete:
  "groups s' = map_delete k (groups s) \<Longrightarrow> groupCounter s' = groupCounter s \<Longrightarrow>
   groups_inv s \<Longrightarrow> groups_inv s'"
  by (auto simp: groups_inv_def group_keys_def map_delete_def distinct_map_filter
      list_all_iff split_def)

lemma groups_inv_group: "groups_inv s \<Longrightarrow> groups_inv (snd (groupSelectedBlocks s))"
proof (cases "length (selectedBlocks s) < 2")
  case True
  then show "groups_inv s \<Longrightarrow> ?thesis" by (simp add: groupSelectedBlocks_def)
next
  case False
  assume inv: "groups_inv s"
  define gid where "gid = ''group_'' @ string_of_nat (groupCounter s)"
  define grp where "grp = \<lparr>g_id = gid, g_name = ''Group '' @ string_of_nat (groupCounter s + 1),
     g_order = min_list (map (\<lambda>(i, b). ord0 b) (selectedBlocks s))\<rparr>"
  let ?s' = "snd (groupSelectedBlocks s)"
  have g: "groups ?s' = map_set gid grp (groups s)"
    using False by (simp add: groupSelectedBlocks_def Let_def gid_def grp_def)
  have c: "groupCounter ?s' = groupCounter s + 1"
    using False by (simp add: groupSelectedBlocks_def Let_def)
  have d: "distinct (map fst (groups ?s'))"
    using inv by (auto simp: g map_set_keys groups_inv_def group_keys_fst)
  have "\<forall>(k, v) \<in> set (groups ?s'). g_id v = k \<and> (\<exists>n < groupCounter ?s'. k = ''group_'' @ string_of_nat n)"
  proof (clarify)
    fix k v assume "(k, v) \<in> set (groups ?s')"
    with set_map_set [of gid grp "groups s"] g
    consider "(k, v) = (gid, grp)" | "(k, v) \<in> set (groups s)" by auto
    then show "g_id v = k \<and> (\<exists>n < groupCounter ?s'. k = ''group_'' @ string_of_nat n)"
    proof cases
      case 1
      then show ?thesis by (auto simp: c gid_def grp_def)
    next
      case 2
      with inv have "g_id v = k \<and> (\<exists>n < groupCounter s. k = ''group_'' @ string_of_nat n)"
        by (auto simp: groups_inv_def group_keys_def list_all_iff)
      then show ?thesis by (auto simp: c intro: less_SucI)
    qed
  qed
  with inv d show ?thesis
    unfolding groups_inv_def group_keys_fst
    by (auto simp: group_keys_def list_all_iff split_def)
qed

lemma effect_groups_inv:
  assumes "groups_inv s" "effect ev c s = Some s'"
  shows "groups_inv s'"
proof (cases c)
  case (AddBlock blockId ty)
  with assms show ?thesis by (auto simp: addBlock_def intro: groups_inv_groups [where s = s])
next
  case (HandleDrop d t)
  with assms handleDrop_frame [of ev d t s] show ?thesis
    by (auto intro: groups_inv_groups [where s = s])
next
  case (HandleGroupDrop d t)
  with assms handleGroupDrop_frame [of ev d t s] show ?thesis
    by (auto simp: group_keys_def intro!: groups_inv_cong [where s = s])
next
  case (MoveBlockUp i)
  with assms show ?thesis by (auto intro: groups_inv_same [where s = s])
next
  case (MoveBlockDown i)
  with assms show ?thesis by (auto intro: groups_inv_same [where s = s])
next
  case (MoveGroupUp i)
  with assms show ?thesis by (auto intro: groups_inv_same [where s = s])
next
  case (MoveGroupDown i)
  with assms show ?thesis by (auto intro: groups_inv_same [where s = s])
next
  case (DeleteBlock i)
  with assms show ?thesis
    by (auto simp: deleteBlock_state intro: groups_inv_groups [where s = s])
next
  case GroupSelectedBlocks
  with assms show ?thesis by (auto simp: groups_inv_group)
next
  case (UngroupBlocks g)
  with assms show ?thesis
    by (auto simp: ungroupBlocks_state intro: groups_inv_delete [where s = s and k = g])
next
  case (DeleteGroup g)
  with assms show ?thesis
    by (auto simp: deleteGroup_state intro: groups_inv_delete [where s = s and k = g])
next
  case (TableOp x)
  show ?thesis
  proof (cases "apply_table_op x s")
    case (Inl e)
    with assms TableOp show ?thesis by simp
  next
    case (Inr s'')
    from apply_table_op_frame [OF this] assms TableOp Inr show ?thesis
      by (auto intro: groups_inv_groups [where s = s])
  qed
next
  case (HandleBlockSelection i chk)
  with assms show ?thesis by (auto intro: groups_inv_groups [where s = s])
next
  case (HandleGroupNameChange g v)
  with assms show ?thesis by (auto intro: groups_inv_same [where s = s])
next
  case (HandleBlockInput i v)
  with assms show ?thesis by (auto intro: groups_inv_groups [where s = s])
next
  case (HandleTableInput i row col v)
  with assms obtain r where r: "handleTableInput ev i row col v s = Some r" "s' = fst r"
    by auto
  from handleTableInput_frame [OF r(1)] r(2) assms(1) show ?thesis
    by (auto intro: groups_inv_groups [where s = s])
next
  case (AddVariable i k v)
  with assms show ?thesis by (auto intro: groups_inv_groups [where s = s])
next
  case (HandleVariableInput i f v)
  with assms show ?thesis by (auto intro: groups_inv_groups [where s = s])
next
  case (DeleteVariable i)
  with assms show ?thesis by (auto intro: groups_inv_groups [where s = s])
next
  case (ImportMarkdown mint markdown)
  with assms show ?thesis
    by (auto simp: importMarkdown_def intro: groups_inv_groups [where s = s])
qed

lemma reachable_groups_inv: "reachable ev s \<Longrightarrow> groups_inv s"
proof (induction rule: reachable.induct)
  case (r_first vmint bmint)
  show ?case by (simp add: groups_inv_def group_keys_def first_visit_frame)
next
  case (r_again s vmint bmint)
  then show ?case by (auto simp: load_stored_frame intro: groups_inv_groups [where s = s])
next
  case (r_call s c s')
  from r_call.IH r_call.hyps(2) show ?case by (rule effect_groups_inv)
qed

subsection \<open>Block ids when the minted ids are new\<close>

lemma effect_block_ids:
  assumes "distinct (block_ids s)" "new_ids c s" "effect ev c s = Some s'"
  shows "distinct (block_ids s')"
proof (cases c)
  case (AddBlock blockId ty)
  with assms show ?thesis by (auto simp: addBlock_def block_ids_def)
next
  case (HandleDrop d t)
  with assms handleDrop_frame [of ev d t s] show ?thesis by auto
next
  case (HandleGroupDrop d t)
  with assms handleGroupDrop_frame [of ev d t s] show ?thesis by (auto simp: block_ids_def)
next
  case (MoveBlockUp i)
  with assms show ?thesis by auto
next
  case (MoveBlockDown i)
  with assms show ?thesis by auto
next
  case (MoveGroupUp i)
  with assms show ?thesis by auto
next
  case (MoveGroupDown i)
  with assms show ?thesis by auto
next
  case (DeleteBlock i)
  with assms show ?thesis
    by (auto simp: deleteBlock_state block_ids_def distinct_map_filter)
next
  case GroupSelectedBlocks
  have "block_ids (snd (groupSelectedBlocks s)) = block_ids s"
    by (simp add: groupSelectedBlocks_def Let_def) (simp add: block_ids_def)
  with GroupSelectedBlocks assms show ?thesis by auto
next
  case (UngroupBlocks g)
  have "block_ids (fst (ungroupBlocks ev g s)) = block_ids s"
    by (simp add: ungroupBlocks_state block_ids_def)
  with UngroupBlocks assms show ?thesis by auto
next
  case (DeleteGroup g)
  with assms show ?thesis
    by (auto simp: deleteGroup_state block_ids_def distinct_map_filter)
next
  case (TableOp x)
  show ?thesis
  proof (cases "apply_table_op x s")
    case (Inl e)
    with assms TableOp show ?thesis by simp
  next
    case (Inr s'')
    from apply_table_op_frame [OF this] assms TableOp Inr show ?thesis by auto
  qed
next
  case (HandleBlockSelection i chk)
  with assms show ?thesis by auto
next
  case (HandleGroupNameChange g v)
  with assms show ?thesis by auto
next
  case (HandleBlockInput i v)
  with assms show ?thesis by auto
next
  case (HandleTableInput i row col v)
  with assms obtain r where r: "handleTableInput ev i row col v s = Some r" "s' = fst r"
    by auto
  from handleTableInput_frame [OF r(1)] r(2) assms(1) show ?thesis by auto
next
  case (AddVariable i k v)
  with assms show ?thesis by (auto simp: block_ids_def)
next
  case (HandleVariableInput i f v)
  with assms show ?thesis by (auto simp: block_ids_def)
next
  case (DeleteVariable i)
  with assms show ?thesis by (auto simp: block_ids_def)
next
  case (ImportMarkdown mint markdown)
  from imported_import_blocks [of mint markdown]
  have "map b_id (import_blocks mint markdown) =
      map mint [0..<length (import_blocks mint markdown)]" by (simp add: imported_def)
  with ImportMarkdown assms show ?thesis
    by (auto simp: importMarkdown_def block_ids_def)
qed

lemma fresh_reachable_block_ids: "fresh_reachable ev s \<Longrightarrow> distinct (block_ids s)"
proof (induction rule: fresh_reachable.induct)
  case (f_first bmint vmint)
  have "[0..<3] = [0, 1, 2 :: nat]" by code_simp
  with f_first show ?case by (simp add: first_visit_frame)
next
  case (f_again s vmint bmint)
  then show ?case by (simp add: load_stored_frame)
next
  case (f_call s c s')
  from f_call.IH f_call.hyps(2,3) show ?case by (rule effect_block_ids)
qed

lemma fresh_reachable_reachable: "fresh_reachable ev s \<Longrightarrow> reachable ev s"
proof (induction rule: fresh_reachable.induct)
  case (f_first bmint vmint)
  show ?case by (rule r_first)
next
  case (f_again s vmint bmint)
  then show ?case by (simp add: r_again)
next
  case (f_call s c s')
  from f_call.IH f_call.hyps(3) show ?case by (rule r_call)
qed

lemma digit_char_code: "d < 10 \<Longrightarrow> (of_char (digit_char d) :: nat) = 48 + d"
proof -
  assume "d < 10"
  then have "d = 0 \<or> d = 1 \<or> d = 2 \<or> d = 3 \<or> d = 4 \<or> d = 5 \<or> d = 6 \<or> d = 7 \<or>
    d = 8 \<or> d = 9" by presburger
  then show ?thesis by (elim disjE) (simp_all add: digit_char_def)
qed

lemma digit_char_inj: "d < 10 \<Longrightarrow> e < 10 \<Longrightarrow> digit_char d = digit_char e \<Longrightarrow> d = e"
proof -
  assume d: "d < 10" and e: "e < 10" and eq: "digit_char d = digit_char e"
  have "48 + d = (of_char (digit_char d) :: nat)" using d by (rule digit_char_code [symmetric])
  also have "\<dots> = of_char (digit_char e)" by (simp only: eq)
  also have "\<dots> = 48 + e" using e by (rule digit_char_code)
  finally show "d = e" by (simp only: add_left_cancel)
qed

lemma string_of_nat_nonempty: "string_of_nat n \<noteq> []"
  by (subst string_of_nat.simps) simp

lemma string_of_nat_inj: "string_of_nat n = string_of_nat m \<Longrightarrow> n = m"
proof (induction n arbitrary: m rule: string_of_nat.induct)
  case (1 n)
  show ?case
  proof (cases "n < 10")
    case True
    show ?thesis
    proof (cases "m < 10")
      case m: True
      from "1.prems" True m have "digit_char n = digit_char m"
        by (simp add: string_of_nat.simps [of n] string_of_nat.simps [of m])
      with True m show ?thesis by (rule digit_char_inj)
    next
      case False
      with "1.prems" True have "[digit_char n] = string_of_nat (m div 10) @ [digit_char (m mod 10)]"
        by (simp add: string_of_nat.simps [of n] string_of_nat.simps [of m])
      then have "string_of_nat (m div 10) = []" by (simp add: Cons_eq_append_conv)
      with string_of_nat_nonempty show ?thesis by blast
    qed
  next
    case False
    show ?thesis
    proof (cases "m < 10")
      case True
      with "1.prems" False have "string_of_nat (n div 10) @ [digit_char (n mod 10)] = [digit_char m]"
        by (simp add: string_of_nat.simps [of n] string_of_nat.simps [of m])
      then have "string_of_nat (n div 10) = []" by (simp add: append_eq_Cons_conv)
      with string_of_nat_nonempty show ?thesis by blast
    next
      case m: False
      from "1.prems" False m have
        e: "string_of_nat (n div 10) = string_of_nat (m div 10)"
           "digit_char (n mod 10) = digit_char (m mod 10)"
        by (simp_all add: string_of_nat.simps [of n] string_of_nat.simps [of m])
      from "1.IH" [OF False e(1)] have d: "n div 10 = m div 10" .
      from e(2) have "n mod 10 = m mod 10" by (intro digit_char_inj) simp_all
      with d show ?thesis by (metis div_mult_mod_eq)
    qed
  qed
qed

lemma next_group_key_fresh:
  assumes "groups_inv s"
  shows "''group_'' @ string_of_nat (groupCounter s) \<notin> fst ` set (groups s)"
proof
  assume "''group_'' @ string_of_nat (groupCounter s) \<in> fst ` set (groups s)"
  then obtain g where "(''group_'' @ string_of_nat (groupCounter s), g) \<in> set (groups s)"
    by auto
  with assms obtain n where "n < groupCounter s"
    "''group_'' @ string_of_nat (groupCounter s) = ''group_'' @ string_of_nat n"
    by (auto simp: groups_inv_def group_keys_def list_all_iff)
  then show False by (auto dest: string_of_nat_inj)
qed

lemma selectedBlocks_member:
  "(i, b) \<in> set (selectedBlocks s) \<Longrightarrow>
   i < length (blocks s) \<and> b = blocks s ! i \<and> b_selected b \<and> \<not> truthy (b_groupId b)"
  by (auto simp: selectedBlocks_def in_set_enumerate_eq)

lemma selectedBlocks_distinct: "distinct (map fst (selectedBlocks s))"
  by (simp add: selectedBlocks_def distinct_map_filter)

lemma fold_assign_length [simp]:
  "length (blocks (fold (assign_to_group gid) es st)) = length (blocks st)"
  by (induction es arbitrary: st) (auto simp: assign_to_group_def split: prod.splits)

lemma fold_assign_other:
  "j \<notin> (fst \<circ> snd) ` set es \<Longrightarrow>
   blocks (fold (assign_to_group gid) es st) ! j = blocks st ! j"
  by (induction es arbitrary: st) (auto simp: assign_to_group_def split: prod.splits)

lemma fold_assign_hit:
  "distinct (map (fst \<circ> snd) es) \<Longrightarrow> (index, i, b) \<in> set es \<Longrightarrow> i < length (blocks st) \<Longrightarrow>
   blocks (fold (assign_to_group gid) es st) ! i =
     (blocks st ! i)\<lparr>b_groupId := Some gid, b_selected := False, b_order := Some (int index)\<rparr>"
proof (induction es arbitrary: st)
  case Nil
  then show ?case by simp
next
  case (Cons e es)
  show ?case
  proof (cases "e = (index, i, b)")
    case True
    with Cons.prems(1) have "i \<notin> (fst \<circ> snd) ` set es" by auto
    then have "blocks (fold (assign_to_group gid) es (assign_to_group gid e st)) ! i =
      blocks (assign_to_group gid e st) ! i" by (rule fold_assign_other)
    also have "\<dots> = (blocks st ! i)\<lparr>b_groupId := Some gid, b_selected := False,
      b_order := Some (int index)\<rparr>"
      using True Cons.prems(3) by (simp add: assign_to_group_def)
    finally show ?thesis by simp
  next
    case False
    with Cons.prems have in_es: "(index, i, b) \<in> set es" and d: "distinct (map (fst \<circ> snd) es)"
      by (auto simp: comp_def)
    from in_es have "(fst \<circ> snd) (index, i, b) \<in> (fst \<circ> snd) ` set es" by (rule imageI)
    with Cons.prems(1) have ne: "fst (snd e) \<noteq> i" by auto
    have len: "i < length (blocks (assign_to_group gid e st))"
      using Cons.prems(3) by (simp add: assign_to_group_def split: prod.splits)
    have "blocks (assign_to_group gid e st) ! i = blocks st ! i"
      using ne by (cases e) (auto simp: assign_to_group_def)
    with Cons.IH [OF d in_es len] show ?thesis by simp
  qed
qed

subsection \<open>Grouping and the top-level sequence\<close>

lemma sample_mints_distinct: "distinct (map sample_mint [0..<3])"
  by code_simp

lemma fresh_first_visit: "fresh_reachable sample_eval first_visit"
  unfolding first_visit_def using sample_mints_distinct by (rule f_first)

lemma fresh_last_two_selected: "fresh_reachable sample_eval last_two_selected"
proof -
  have 1: "fresh_reachable sample_eval (fst (moveBlockUp sample_eval ''block_2'' first_visit))"
    by (rule f_call [OF fresh_first_visit, of "MoveBlockUp ''block_2''"]) simp_all
  have 2: "fresh_reachable sample_eval
      (handleBlockSelection ''block_1'' True
        (fst (moveBlockUp sample_eval ''block_2'' first_visit)))"
    by (rule f_call [OF 1, of "HandleBlockSelection ''block_1'' True"]) simp_all
  show ?thesis unfolding last_two_selected_def
    by (rule f_call [OF 2, of "HandleBlockSelection ''block_2'' True"]) simp_all
qed

lemma fresh_last_two_grouped: "fresh_reachable sample_eval last_two_grouped"
  unfolding last_two_grouped_def
  by (rule f_call [OF fresh_last_two_selected, of GroupSelectedBlocks]) simp_all

lemma fresh_emptied_group: "fresh_reachable sample_eval emptied_group"
proof -
  have 1: "fresh_reachable sample_eval (fst (deleteBlock sample_eval ''block_1'' last_two_grouped))"
    by (rule f_call [OF fresh_last_two_grouped, of "DeleteBlock ''block_1''"]) simp_all
  show ?thesis unfolding emptied_group_def
    by (rule f_call [OF 1, of "DeleteBlock ''block_2''"]) simp_all
qed

lemma reachable_one_selected: "reachable sample_eval one_selected"
  unfolding one_selected_def
  by (rule r_call [OF fresh_reachable_reachable [OF fresh_first_visit],
        of "HandleBlockSelection ''block_1'' True"]) simp

lemma reachable_same_id_twice: "reachable sample_eval same_id_twice"
  unfolding same_id_twice_def
  by (rule r_call [OF fresh_reachable_reachable [OF fresh_first_visit],
        of "AddBlock ''block_0'' TCode"]) simp

text \<open>The selection of \<open>groupSelectedBlocks\<close>, block by block.\<close>

lemma truthy_iff: "\<not> truthy g \<longleftrightarrow> g = None \<or> g = Some []"
  by (cases g) (simp_all add: truthy_def)

lemma map_snd_filter_enumerate:
  "map snd (filter (\<lambda>(i, b). P b) (enumerate n xs)) = filter P xs"
  by (induction xs arbitrary: n) auto

lemma block_items_keys:
  "map (\<lambda>it. (item_type it, item_id it)) (block_items s) =
     map (\<lambda>b. (KBlock, b_id b)) (filter (\<lambda>b. \<not> truthy (b_groupId b)) (blocks s))"
proof -
  have "map (\<lambda>it. (item_type it, item_id it)) (block_items s) =
    map (\<lambda>b. (KBlock, b_id b))
      (map snd (filter (\<lambda>(i, b). \<not> truthy (b_groupId b)) (enumerate 0 (blocks s))))"
    by (simp add: block_items_def split_def comp_def)
  then show ?thesis by (simp only: map_snd_filter_enumerate)
qed

lemma group_items_keys_aux:
  "map (\<lambda>it. (item_type it, item_id it))
     (concat (map (\<lambda>(j, (groupId, g)).
         let groupBlocks = filter (\<lambda>b. b_groupId b = Some groupId) bs in
         if length groupBlocks > 0 then [GroupItem j g groupBlocks (g_order g)] else [])
       (enumerate n gs))) =
   map (\<lambda>(k, g). (KGroup, g_id g))
     (filter (\<lambda>(k, g). filter (\<lambda>b. b_groupId b = Some k) bs \<noteq> []) gs)"
  by (induction gs arbitrary: n) (auto simp: Let_def)

lemma group_items_keys:
  "map (\<lambda>it. (item_type it, item_id it)) (group_items s) =
   map (\<lambda>(k, g). (KGroup, g_id g))
     (filter (\<lambda>(k, g). filter (\<lambda>b. b_groupId b = Some k) (blocks s) \<noteq> []) (groups s))"
  unfolding group_items_def by (rule group_items_keys_aux)

lemma distinct_map_sort_key:
  "distinct (map g (sort_key f xs)) = distinct (map g xs)"
  by (simp add: distinct_map)

lemma selectedBlocks_blocks:
  "map snd (selectedBlocks s) =
     filter (\<lambda>b. b_selected b \<and> (b_groupId b = None \<or> b_groupId b = Some [])) (blocks s)"
proof -
  have "selectedBlocks s =
      filter (\<lambda>(i, b). b_selected b \<and> (b_groupId b = None \<or> b_groupId b = Some []))
        (enumerate 0 (blocks s))"
    by (simp add: selectedBlocks_def truthy_iff)
  then show ?thesis by (simp only: map_snd_filter_enumerate)
qed

lemma filter_enumerate_nth:
  "i < length xs \<Longrightarrow> P (xs ! i) \<Longrightarrow>
   length (filter P (take i xs)) < length (filter (\<lambda>(j, x). P x) (enumerate n xs)) \<and>
   filter (\<lambda>(j, x). P x) (enumerate n xs) ! length (filter P (take i xs)) = (n + i, xs ! i)"
proof (induction xs arbitrary: n i)
  case Nil
  then show ?case by simp
next
  case (Cons x xs)
  show ?case
  proof (cases i)
    case 0
    with Cons.prems show ?thesis by simp
  next
    case (Suc k)
    with Cons.prems have k: "k < length xs" "P (xs ! k)" by simp_all
    from Cons.IH [OF k, of "Suc n"] Suc show ?thesis by simp
  qed
qed

lemma selectedBlocks_nth:
  assumes "i < length (blocks s)"
    and "b_selected (blocks s ! i) \<and>
         (b_groupId (blocks s ! i) = None \<or> b_groupId (blocks s ! i) = Some [])"
  shows "length (filter (\<lambda>b. b_selected b \<and> (b_groupId b = None \<or> b_groupId b = Some []))
           (take i (blocks s))) < length (selectedBlocks s) \<and>
         selectedBlocks s !
           length (filter (\<lambda>b. b_selected b \<and> (b_groupId b = None \<or> b_groupId b = Some []))
             (take i (blocks s))) = (i, blocks s ! i)"
proof -
  have e: "selectedBlocks s =
      filter (\<lambda>(i, b). b_selected b \<and> (b_groupId b = None \<or> b_groupId b = Some []))
        (enumerate 0 (blocks s))"
    by (simp add: selectedBlocks_def truthy_iff)
  from filter_enumerate_nth [of i "blocks s"
      "\<lambda>b. b_selected b \<and> (b_groupId b = None \<or> b_groupId b = Some [])" 0, OF assms]
  show ?thesis by (simp only: e) simp
qed

text \<open>What \<open>groupSelectedBlocks\<close> writes, in terms of the selection it computes.\<close>

lemma groupSelectedBlocks_selection:
  assumes two: "2 \<le> length (selectedBlocks s)"
  shows "let s' = snd (groupSelectedBlocks s);
           sel = selectedBlocks s;
           gid = ''group_'' @ string_of_nat (groupCounter s);
           grp = \<lparr>g_id = gid, g_name = ''Group '' @ string_of_nat (groupCounter s + 1),
                  g_order = Min (set (map (\<lambda>(i, b). ord0 b) sel))\<rparr>
       in fst (groupSelectedBlocks s) = None \<and>
          groups s' = map_set gid grp (groups s) \<and>
          (groups_inv s \<longrightarrow> groups s' = groups s @ [(gid, grp)]) \<and>
          length (blocks s') = length (blocks s) \<and>
          (\<forall>k < length sel.
             blocks s' ! fst (sel ! k) =
               (snd (sel ! k))\<lparr>b_groupId := Some gid, b_selected := False,
                                b_order := Some (int k)\<rparr>) \<and>
          (\<forall>j < length (blocks s). j \<notin> fst ` set sel \<longrightarrow> blocks s' ! j = blocks s ! j) \<and>
          groupCounter s' = groupCounter s + 1 \<and>
          variables s' = variables s"
proof -
  define sel where "sel = selectedBlocks s"
  define gid where "gid = ''group_'' @ string_of_nat (groupCounter s)"
  define grp where "grp = \<lparr>g_id = gid, g_name = ''Group '' @ string_of_nat (groupCounter s + 1),
                  g_order = Min (set (map (\<lambda>(i, b). ord0 b) sel))\<rparr>"
  define s2 where "s2 = s\<lparr>groupCounter := groupCounter s + 1, groups := map_set gid grp (groups s)\<rparr>"
  define s' where "s' = snd (groupSelectedBlocks s)"
  from two have ne: "sel \<noteq> []" by (auto simp: sel_def)
  then have m: "min_list (map (\<lambda>(i, b). ord0 b) sel) = Min (set (map (\<lambda>(i, b). ord0 b) sel))"
    by (intro min_list_Min) simp
  have res: "groupSelectedBlocks s = (None, fold (assign_to_group gid) (enumerate 0 sel) s2)"
    using two m by (simp add: groupSelectedBlocks_def Let_def sel_def gid_def grp_def s2_def)
  then have s': "s' = fold (assign_to_group gid) (enumerate 0 sel) s2" by (simp add: s'_def)
  have pos: "map (fst \<circ> snd) (enumerate 0 sel) = map fst sel"
  proof -
    have "map (fst \<circ> snd) (enumerate 0 sel) = map fst (map snd (enumerate 0 sel))"
      by (simp only: map_map)
    then show ?thesis by (simp only: map_snd_enumerate)
  qed
  have d: "distinct (map (fst \<circ> snd) (enumerate 0 sel))"
    by (simp only: pos) (simp only: sel_def selectedBlocks_distinct)
  have g: "groups s' = map_set gid grp (groups s)" by (simp add: s' s2_def)
  have fresh: "groups_inv s \<Longrightarrow> groups s' = groups s @ [(gid, grp)]"
    using next_group_key_fresh [of s]
    by (simp add: g gid_def map_set_fresh)
  have hit: "blocks s' ! fst (sel ! k) =
      (snd (sel ! k))\<lparr>b_groupId := Some gid, b_selected := False, b_order := Some (int k)\<rparr>"
    if k: "k < length sel" for k
  proof -
    obtain i b where ib: "sel ! k = (i, b)" by (cases "sel ! k")
    from k have "sel ! k \<in> set sel" by (rule nth_mem)
    then have "(i, b) \<in> set sel" by (simp only: ib)
    then have mem: "(i, b) \<in> set (selectedBlocks s)" by (simp only: sel_def)
    from selectedBlocks_member [OF mem] have i: "i < length (blocks s2)" and b: "b = blocks s2 ! i"
      by (simp_all add: s2_def)
    have "(k, i, b) \<in> set (enumerate 0 sel)" using k ib by (simp add: in_set_enumerate_eq)
    from fold_assign_hit [OF d this i] show ?thesis by (simp add: s' ib b)
  qed
  have other: "blocks s' ! j = blocks s ! j" if "j \<notin> fst ` set sel" for j
  proof -
    have "(fst \<circ> snd) ` set (enumerate 0 sel) = fst ` set sel"
      using arg_cong [OF pos, of set] by (simp only: set_map)
    with that have "j \<notin> (fst \<circ> snd) ` set (enumerate 0 sel)" by simp
    from fold_assign_other [OF this] show ?thesis by (simp add: s' s2_def)
  qed
  show ?thesis
    unfolding Let_def s'_def [symmetric] sel_def [symmetric] gid_def [symmetric] grp_def [symmetric]
  proof (intro conjI allI impI)
    show "fst (groupSelectedBlocks s) = None" by (simp add: res)
    show "groups s' = map_set gid grp (groups s)" by (rule g)
    show "groups s' = groups s @ [(gid, grp)]" if "groups_inv s" using that by (rule fresh)
    show "length (blocks s') = length (blocks s)" by (simp add: s' s2_def)
    show "blocks s' ! fst (sel ! k) =
      (snd (sel ! k))\<lparr>b_groupId := Some gid, b_selected := False, b_order := Some (int k)\<rparr>"
      if "k < length sel" for k using that by (rule hit)
    show "blocks s' ! j = blocks s ! j" if "j \<notin> fst ` set sel" for j using that by (rule other)
    show "groupCounter s' = groupCounter s + 1" by (simp add: s' s2_def)
    show "variables s' = variables s" by (simp add: s' s2_def)
  qed
qed

text \<open>
  Claim C4. A block is chosen when it is selected and its group id is \<open>null\<close> or empty.
  When fewer than 2 blocks are chosen, \<open>groupSelectedBlocks\<close> shows the alert and leaves
  the state unchanged. When at least 2 are, no alert is shown; a group with the id
  \<open>group_n\<close> (\<open>n\<close> the group counter) and the name \<open>Group n+1\<close> is set in the groups map,
  and in a reachable document it is one new entry at the end of the map; its order is an
  order of a chosen block and at most the order of every chosen block (an undefined
  order counts as 0); a chosen block gets the new group id, \<open>selected = false\<close> and as its
  order the number of chosen blocks before it in \<open>this.blocks\<close>; every other block, and
  the variables, are unchanged; the counter grows by one.
\<close>

theorem C4_groupSelectedBlocks:
  "(let chosen = (\<lambda>b. b_selected b \<and> (b_groupId b = None \<or> b_groupId b = Some []));
        order_of = (\<lambda>b. case b_order b of None \<Rightarrow> 0 | Some n \<Rightarrow> n);
        s' = snd (groupSelectedBlocks s);
        gid = ''group_'' @ string_of_nat (groupCounter s)
    in (length (filter chosen (blocks s)) < 2 \<longrightarrow>
          groupSelectedBlocks s = (Some ''Please select at least 2 blocks to group'', s)) \<and>
       (2 \<le> length (filter chosen (blocks s)) \<longrightarrow>
          fst (groupSelectedBlocks s) = None \<and>
          (\<exists>grp. groups s' = map_set gid grp (groups s) \<and>
                 g_id grp = gid \<and>
                 g_name grp = ''Group '' @ string_of_nat (groupCounter s + 1) \<and>
                 (\<forall>b \<in> set (filter chosen (blocks s)). g_order grp \<le> order_of b) \<and>
                 (\<exists>b \<in> set (filter chosen (blocks s)). g_order grp = order_of b) \<and>
                 (reachable ev s \<longrightarrow> groups s' = groups s @ [(gid, grp)])) \<and>
          length (blocks s') = length (blocks s) \<and>
          (\<forall>i < length (blocks s).
             blocks s' ! i =
               (if chosen (blocks s ! i)
                then (blocks s ! i)\<lparr>b_groupId := Some gid, b_selected := False,
                       b_order := Some (int (length (filter chosen (take i (blocks s)))))\<rparr>
                else blocks s ! i)) \<and>
          groupCounter s' = groupCounter s + 1 \<and>
          variables s' = variables s))"
proof -
  define chosen where
    "chosen = (\<lambda>b :: block. b_selected b \<and> (b_groupId b = None \<or> b_groupId b = Some []))"
  define order_of where
    "order_of = (\<lambda>b :: block. case b_order b of None \<Rightarrow> (0 :: int) | Some n \<Rightarrow> n)"
  define s' where "s' = snd (groupSelectedBlocks s)"
  define gid where "gid = ''group_'' @ string_of_nat (groupCounter s)"
  define sel where "sel = selectedBlocks s"
  define grp where "grp = \<lparr>g_id = gid, g_name = ''Group '' @ string_of_nat (groupCounter s + 1),
                  g_order = Min (set (map (\<lambda>(i, b). ord0 b) sel))\<rparr>"
  have sb: "map snd sel = filter chosen (blocks s)"
    unfolding sel_def chosen_def by (rule selectedBlocks_blocks)
  then have len: "length sel = length (filter chosen (blocks s))"
    by (metis length_map)
  have oo: "order_of = ord0" by (simp add: order_of_def ord0_def fun_eq_iff)
  have few: "groupSelectedBlocks s = (Some ''Please select at least 2 blocks to group'', s)"
    if "length (filter chosen (blocks s)) < 2"
    using that by (simp add: groupSelectedBlocks_def len [unfolded sel_def])
  have many: "fst (groupSelectedBlocks s) = None \<and>
      (\<exists>grp. groups s' = map_set gid grp (groups s) \<and>
             g_id grp = gid \<and>
             g_name grp = ''Group '' @ string_of_nat (groupCounter s + 1) \<and>
             (\<forall>b \<in> set (filter chosen (blocks s)). g_order grp \<le> order_of b) \<and>
             (\<exists>b \<in> set (filter chosen (blocks s)). g_order grp = order_of b) \<and>
             (reachable ev s \<longrightarrow> groups s' = groups s @ [(gid, grp)])) \<and>
      length (blocks s') = length (blocks s) \<and>
      (\<forall>i < length (blocks s).
         blocks s' ! i =
           (if chosen (blocks s ! i)
            then (blocks s ! i)\<lparr>b_groupId := Some gid, b_selected := False,
                   b_order := Some (int (length (filter chosen (take i (blocks s)))))\<rparr>
            else blocks s ! i)) \<and>
      groupCounter s' = groupCounter s + 1 \<and>
      variables s' = variables s"
    if two: "2 \<le> length (filter chosen (blocks s))"
  proof -
    from two len have two': "2 \<le> length (selectedBlocks s)" by (simp add: sel_def)
    note r = groupSelectedBlocks_selection [OF two', unfolded Let_def,
        folded sel_def gid_def, folded grp_def, folded s'_def]
    from r have r1: "fst (groupSelectedBlocks s) = None" by blast
    from r have r2: "groups s' = map_set gid grp (groups s)" by blast
    from r have r3: "groups_inv s \<longrightarrow> groups s' = groups s @ [(gid, grp)]" by blast
    from r have r4: "length (blocks s') = length (blocks s)" by blast
    from r have r5: "\<forall>k < length sel.
        blocks s' ! fst (sel ! k) =
          (snd (sel ! k))\<lparr>b_groupId := Some gid, b_selected := False, b_order := Some (int k)\<rparr>"
      by blast
    from r have r6: "\<forall>j < length (blocks s). j \<notin> fst ` set sel \<longrightarrow> blocks s' ! j = blocks s ! j"
      by blast
    from r have r7: "groupCounter s' = groupCounter s + 1" by blast
    from r have r8: "variables s' = variables s" by blast
    have img: "(\<lambda>(i, b). ord0 b) ` set sel = ord0 ` set (filter chosen (blocks s))"
    proof -
      have "(\<lambda>(i, b). ord0 b) ` set sel = ord0 ` set (map snd sel)"
        by (auto simp: image_iff split_def)
      then show ?thesis by (simp only: sb)
    qed
    from two have ne: "set (filter chosen (blocks s)) \<noteq> {}" by (cases "filter chosen (blocks s)") auto
    have go: "g_order grp = Min (ord0 ` set (filter chosen (blocks s)))"
      by (simp add: grp_def img)
    have lo: "\<forall>b \<in> set (filter chosen (blocks s)). g_order grp \<le> order_of b"
      unfolding go oo by (intro ballI Min_le) simp_all
    have "Min (ord0 ` set (filter chosen (blocks s))) \<in> ord0 ` set (filter chosen (blocks s))"
      using ne by (intro Min_in) simp_all
    then have at: "\<exists>b \<in> set (filter chosen (blocks s)). g_order grp = order_of b"
      unfolding go oo by blast
    have rr: "reachable ev s \<longrightarrow> groups s' = groups s @ [(gid, grp)]"
      using r3 reachable_groups_inv [of ev s] by blast
    have blk: "blocks s' ! i =
        (if chosen (blocks s ! i)
         then (blocks s ! i)\<lparr>b_groupId := Some gid, b_selected := False,
                b_order := Some (int (length (filter chosen (take i (blocks s)))))\<rparr>
         else blocks s ! i)" if i: "i < length (blocks s)" for i
    proof (cases "chosen (blocks s ! i)")
      case True
      then have c: "b_selected (blocks s ! i) \<and>
          (b_groupId (blocks s ! i) = None \<or> b_groupId (blocks s ! i) = Some [])"
        by (simp add: chosen_def)
      define k where "k = length (filter chosen (take i (blocks s)))"
      from selectedBlocks_nth [OF i c]
      have k: "k < length sel" and n: "sel ! k = (i, blocks s ! i)"
        by (simp_all add: k_def chosen_def sel_def)
      from r5 k have "blocks s' ! fst (sel ! k) =
          (snd (sel ! k))\<lparr>b_groupId := Some gid, b_selected := False, b_order := Some (int k)\<rparr>"
        by blast
      with n True show ?thesis by (simp add: k_def)
    next
      case False
      have "i \<notin> fst ` set sel"
      proof
        assume "i \<in> fst ` set sel"
        then obtain b where "(i, b) \<in> set (selectedBlocks s)" by (auto simp: sel_def)
        from selectedBlocks_member [OF this] False show False
          by (auto simp: chosen_def truthy_iff)
      qed
      with r6 i False show ?thesis by simp
    qed
    have g_id: "g_id grp = gid" and g_name: "g_name grp = ''Group '' @ string_of_nat (groupCounter s + 1)"
      by (simp_all add: grp_def)
    from r1 r2 g_id g_name lo at rr r4 blk r7 r8 show ?thesis by blast
  qed
  from few many show ?thesis
    unfolding Let_def chosen_def [symmetric] order_of_def [symmetric] s'_def [symmetric]
      gid_def [symmetric]
    by blast
qed

theorem C4_groupSelectedBlocks_witness:
  "map (\<lambda>b. (b_id b, b_groupId b, b_selected b, b_order b)) (blocks one_selected) =
     [(''block_0'', None, False, Some 0), (''block_1'', None, True, Some 1),
      (''block_2'', None, False, Some 2)] \<and>
   reachable sample_eval one_selected \<and>
   groupSelectedBlocks one_selected =
     (Some ''Please select at least 2 blocks to group'', one_selected) \<and>
   map (\<lambda>b. (b_id b, b_groupId b, b_selected b, b_order b)) (blocks last_two_selected) =
     [(''block_0'', None, False, Some 0), (''block_1'', None, True, Some 2),
      (''block_2'', None, True, Some 1)] \<and>
   length (variables last_two_selected) = 5 \<and>
   groups last_two_selected = [] \<and>
   reachable sample_eval last_two_selected \<and>
   fst (groupSelectedBlocks last_two_selected) = None \<and>
   groups (snd (groupSelectedBlocks last_two_selected)) =
     [(''group_0'', \<lparr>g_id = ''group_0'', g_name = ''Group 1'', g_order = 1\<rparr>)] \<and>
   map (\<lambda>b. (b_id b, b_groupId b, b_selected b, b_order b))
       (blocks (snd (groupSelectedBlocks last_two_selected))) =
     [(''block_0'', None, False, Some 0), (''block_1'', Some ''group_0'', False, Some 0),
      (''block_2'', Some ''group_0'', False, Some 1)] \<and>
   groupCounter (snd (groupSelectedBlocks last_two_selected)) = 1 \<and>
   variables (snd (groupSelectedBlocks last_two_selected)) = variables last_two_selected"
proof -
  have a: "map (\<lambda>b. (b_id b, b_groupId b, b_selected b, b_order b)) (blocks one_selected) =
     [(''block_0'', None, False, Some 0), (''block_1'', None, True, Some 1),
      (''block_2'', None, False, Some 2)]"
    unfolding one_selected_eq first_visit_eq by code_simp
  have a': "length (filter (\<lambda>b. b_selected b \<and> (b_groupId b = None \<or> b_groupId b = Some []))
      (blocks one_selected)) < 2"
    unfolding one_selected_eq first_visit_eq by code_simp
  have b: "map (\<lambda>b. (b_id b, b_groupId b, b_selected b, b_order b)) (blocks last_two_selected) =
     [(''block_0'', None, False, Some 0), (''block_1'', None, True, Some 2),
      (''block_2'', None, True, Some 1)]"
    unfolding last_two_selected_eq first_visit_eq by code_simp
  have b': "2 \<le> length (filter (\<lambda>b. b_selected b \<and> (b_groupId b = None \<or> b_groupId b = Some []))
      (blocks last_two_selected))"
    unfolding last_two_selected_eq first_visit_eq by code_simp
  have c: "length (variables last_two_selected) = 5"
    unfolding last_two_selected_eq first_visit_eq by code_simp
  have d: "groups last_two_selected = []"
    unfolding last_two_selected_eq first_visit_eq by code_simp
  have e: "groupCounter last_two_selected = 0"
    unfolding last_two_selected_eq first_visit_eq by code_simp
  have r: "reachable sample_eval last_two_selected"
    using fresh_last_two_selected by (rule fresh_reachable_reachable)
  have g: "groups (snd (groupSelectedBlocks last_two_selected)) =
     [(''group_0'', \<lparr>g_id = ''group_0'', g_name = ''Group 1'', g_order = 1\<rparr>)]"
    unfolding last_two_selected_eq first_visit_eq by code_simp
  have h: "map (\<lambda>b. (b_id b, b_groupId b, b_selected b, b_order b))
       (blocks (snd (groupSelectedBlocks last_two_selected))) =
     [(''block_0'', None, False, Some 0), (''block_1'', Some ''group_0'', False, Some 0),
      (''block_2'', Some ''group_0'', False, Some 1)]"
    unfolding last_two_selected_eq first_visit_eq by code_simp
  from C4_groupSelectedBlocks [of one_selected sample_eval] a'
  have 1: "groupSelectedBlocks one_selected =
      (Some ''Please select at least 2 blocks to group'', one_selected)"
    unfolding Let_def by blast
  from C4_groupSelectedBlocks [of last_two_selected sample_eval] b'
  have 2: "fst (groupSelectedBlocks last_two_selected) = None \<and>
      groupCounter (snd (groupSelectedBlocks last_two_selected)) = groupCounter last_two_selected + 1 \<and>
      variables (snd (groupSelectedBlocks last_two_selected)) = variables last_two_selected"
    unfolding Let_def by blast
  from a reachable_one_selected 1 b c d r 2 g h e show ?thesis by simp
qed

lemma items_groups_distinct:
  assumes "groups_inv s"
  shows "distinct (map item_id (filter (\<lambda>it. item_type it = KGroup) (getAllOrderedItems s)))"
proof -
  from assms have k: "distinct (map fst (groups s))" by (simp add: groups_inv_def group_keys_fst)
  from assms have i: "\<forall>(k, g) \<in> set (groups s). g_id g = k"
    by (auto simp: groups_inv_def group_keys_def list_all_iff)
  let ?P = "\<lambda>(k, g). filter (\<lambda>b. b_groupId b = Some k) (blocks s) \<noteq> []"
  have "map (\<lambda>(k, g). g_id g) (filter ?P (groups s)) = map fst (filter ?P (groups s))"
    using i by (intro map_cong) auto
  moreover have "distinct (map fst (filter ?P (groups s)))"
    using k by (rule distinct_map_filter)
  ultimately have g: "distinct (map (\<lambda>(k, g). g_id g) (filter ?P (groups s)))"
    by (simp only:)
  have b: "filter (\<lambda>it. item_type it = KGroup) (block_items s) = []"
    by (auto simp: filter_empty_conv dest: block_items_kind)
  have "\<forall>it \<in> set (group_items s). item_type it = KGroup"
    by (auto dest: group_items_member)
  then have gi: "filter (\<lambda>it. item_type it = KGroup) (group_items s) = group_items s"
    by (simp add: filter_id_conv)
  have "map item_id (group_items s) =
      map snd (map (\<lambda>it. (item_type it, item_id it)) (group_items s))"
    by (simp add: comp_def)
  also have "\<dots> = map (\<lambda>(k, g). g_id g) (filter ?P (groups s))"
    by (simp only: group_items_keys) (simp add: split_def comp_def)
  finally have m: "map item_id (group_items s) = map (\<lambda>(k, g). g_id g) (filter ?P (groups s))" .
  have "filter (\<lambda>it. item_type it = KGroup) (getAllOrderedItems s) =
      sort_key item_order (group_items s)"
    by (simp add: getAllOrderedItems_def filter_sort b gi)
  then show ?thesis using g by (simp add: distinct_map_sort_key m)
qed

lemma items_blocks_distinct:
  assumes "distinct (block_ids s)"
  shows "distinct (map item_id (filter (\<lambda>it. item_type it = KBlock) (getAllOrderedItems s)))"
proof -
  from assms have d: "distinct (map b_id (blocks s))" by (simp add: block_ids_def)
  have "\<forall>it \<in> set (block_items s). item_type it = KBlock"
    by (auto dest: block_items_kind)
  then have b: "filter (\<lambda>it. item_type it = KBlock) (block_items s) = block_items s"
    by (simp add: filter_id_conv)
  have gi: "filter (\<lambda>it. item_type it = KBlock) (group_items s) = []"
    by (auto simp: filter_empty_conv dest: group_items_member)
  have "map item_id (block_items s) =
      map snd (map (\<lambda>it. (item_type it, item_id it)) (block_items s))"
    by (simp add: comp_def)
  also have "\<dots> = map b_id (filter (\<lambda>b. \<not> truthy (b_groupId b)) (blocks s))"
    by (simp only: block_items_keys) (simp add: comp_def)
  finally have m: "map item_id (block_items s) =
      map b_id (filter (\<lambda>b. \<not> truthy (b_groupId b)) (blocks s))" .
  have "filter (\<lambda>it. item_type it = KBlock) (getAllOrderedItems s) =
      sort_key item_order (block_items s)"
    by (simp add: getAllOrderedItems_def filter_sort b gi)
  then show ?thesis using distinct_map_filter [OF d] by (simp add: distinct_map_sort_key m)
qed

lemma items_groups_nonempty:
  assumes "groups_inv s"
  shows "list_all (\<lambda>it. case it of
           BlockItem i b n \<Rightarrow> True
         | GroupItem j g members n \<Rightarrow>
             members = filter (\<lambda>b. b_groupId b = Some (g_id g)) (blocks s) \<and> members \<noteq> [])
         (getAllOrderedItems s)"
  unfolding list_all_iff
proof
  fix it assume "it \<in> set (getAllOrderedItems s)"
  then consider "it \<in> set (block_items s)" | "it \<in> set (group_items s)"
    by (auto simp: set_getAllOrderedItems)
  then show "case it of BlockItem i b n \<Rightarrow> True
         | GroupItem j g members n \<Rightarrow>
             members = filter (\<lambda>b. b_groupId b = Some (g_id g)) (blocks s) \<and> members \<noteq> []"
  proof cases
    case 1
    from block_items_member [OF this] show ?thesis by auto
  next
    case 2
    from group_items_member [OF this] obtain j k g where
      kg: "(k, g) \<in> set (groups s)" "filter (\<lambda>b. b_groupId b = Some k) (blocks s) \<noteq> []"
        "it = GroupItem j g (filter (\<lambda>b. b_groupId b = Some k) (blocks s)) (g_order g)"
      by blast
    from assms kg(1) have "g_id g = k"
      by (auto simp: groups_inv_def group_keys_def list_all_iff)
    with kg show ?thesis by simp
  qed
qed

text \<open>
  Claim C1 as stated fails for block ids. The id of a new block is minted from the clock
  and a random number and is compared with no id of the document: when the id minted
  for a fourth block of the first visit's document is the id of its heading, the list
  \<open>getAllOrderedItems\<close> returns holds that id twice.
\<close>

theorem C1_same_id_counterexample:
  "reachable sample_eval same_id_twice \<and>
   map (\<lambda>it. (item_type it, item_id it)) (getAllOrderedItems same_id_twice) =
     [(KBlock, ''block_0''), (KBlock, ''block_1''), (KBlock, ''block_2''), (KBlock, ''block_0'')]"
proof -
  have "map (\<lambda>it. (item_type it, item_id it)) (getAllOrderedItems same_id_twice) =
     [(KBlock, ''block_0''), (KBlock, ''block_1''), (KBlock, ''block_2''), (KBlock, ''block_0'')]"
    unfolding same_id_twice_eq first_visit_eq by code_simp
  with reachable_same_id_twice show ?thesis by simp
qed

text \<open>
  Claim C1, amended. In every reachable document (the document of a first visit, a
  document loaded again, and what any call leaves, whatever ids were minted) the list
  \<open>getAllOrderedItems\<close> returns holds each group id at most once, and every group entry
  carries the blocks whose \<open>groupId\<close> is the group's id, of which there is at least one.
  When every block id minted on the way was new, the list holds each block id at most
  once too.
\<close>

theorem C1_top_level_sequence:
  assumes "reachable ev s"
  shows "distinct (map item_id (filter (\<lambda>it. item_type it = KGroup) (getAllOrderedItems s))) \<and>
         list_all (\<lambda>it. case it of
             BlockItem i b n \<Rightarrow> True
           | GroupItem j g members n \<Rightarrow>
               members = filter (\<lambda>b. b_groupId b = Some (g_id g)) (blocks s) \<and> members \<noteq> [])
           (getAllOrderedItems s) \<and>
         (fresh_reachable ev s \<longrightarrow>
            distinct (map item_id (filter (\<lambda>it. item_type it = KBlock) (getAllOrderedItems s))))"
  using items_groups_distinct [OF reachable_groups_inv [OF assms]]
        items_groups_nonempty [OF reachable_groups_inv [OF assms]]
        items_blocks_distinct [OF fresh_reachable_block_ids, of ev s]
  by simp

theorem C1_top_level_sequence_witness:
  "reachable sample_eval last_two_grouped \<and> fresh_reachable sample_eval last_two_grouped \<and>
   reachable sample_eval emptied_group \<and> fresh_reachable sample_eval emptied_group \<and>
   map (\<lambda>it. (item_type it, item_id it)) (getAllOrderedItems last_two_grouped) =
     [(KBlock, ''block_0''), (KGroup, ''group_0'')] \<and>
   map fst (groups emptied_group) = [''group_0''] \<and>
   map (\<lambda>it. (item_type it, item_id it)) (getAllOrderedItems emptied_group) =
     [(KBlock, ''block_0'')] \<and>
   distinct (map item_id (filter (\<lambda>it. item_type it = KGroup) (getAllOrderedItems last_two_grouped))) \<and>
   distinct (map item_id (filter (\<lambda>it. item_type it = KBlock) (getAllOrderedItems last_two_grouped))) \<and>
   distinct (map item_id (filter (\<lambda>it. item_type it = KBlock) (getAllOrderedItems emptied_group)))"
proof -
  have 1: "map (\<lambda>it. (item_type it, item_id it)) (getAllOrderedItems last_two_grouped) =
     [(KBlock, ''block_0''), (KGroup, ''group_0'')]"
    unfolding last_two_grouped_eq first_visit_eq by code_simp
  have 2: "map fst (groups emptied_group) = [''group_0'']"
    unfolding emptied_group_eq first_visit_eq by code_simp
  have 3: "map (\<lambda>it. (item_type it, item_id it)) (getAllOrderedItems emptied_group) =
     [(KBlock, ''block_0'')]"
    unfolding emptied_group_eq first_visit_eq by code_simp
  note f1 = fresh_last_two_grouped and f2 = fresh_emptied_group
  note r1 = fresh_reachable_reachable [OF f1] and r2 = fresh_reachable_reachable [OF f2]
  from C1_top_level_sequence [OF r1] C1_top_level_sequence [OF r2] f1 f2 r1 r2 1 2 3
  show ?thesis by blast
qed

subsection \<open>Import and variable substitution on concrete inputs\<close>

lemma split_two_headings: "split_lines two_headings = [''# A'', [], ''# B'']"
  by (simp add: two_headings_def split_lines.simps)

text \<open>
  Claim C6, as far as the code goes: \<open>importMarkdown\<close> replaces the block list by the
  imported blocks, whatever it was; the \<open>k\<close>-th imported block has the \<open>k\<close>-th minted id
  and no group id. But no imported block has an \<open>order\<close>: the field stays \<open>undefined\<close>
  until the document is loaded from storage again. For the text of two headings both
  orders are undefined, where the claim says 0 and 1.
\<close>

theorem C6_import_order_undefined:
  "blocks (importMarkdown mint markdown s) = import_blocks mint markdown \<and>
   map b_id (import_blocks mint markdown) =
     map mint [0..<length (import_blocks mint markdown)] \<and>
   list_all (\<lambda>b. b_groupId b = None \<and> b_order b = None) (import_blocks mint markdown) \<and>
   map b_order (blocks (importMarkdown mint two_headings s)) = [None, None]"
proof -
  have "map b_order (import_blocks mint two_headings) = [None, None]"
    by (simp add: import_blocks_def split_two_headings import_line_def startsWith_def
        finishCurrentBlock_def trim_def)
  with imported_import_blocks [of mint markdown] show ?thesis
    by (simp add: importMarkdown_def imported_def list_all_iff)
qed

lemma price_eval_subst:
  "eval_subst price_vars ''{{price}}*{{tax}}'' = Some (Inr ''1000*0.2'')"
  by (simp add: price_vars_def replace_key_def key_pattern_def syntax_char_def startsWith_def
      placeholder_def)

lemma price_is_math: "is_math (strip_markers ''1000*0.2'')"
  by (simp add: is_math_def math_char_def)

text \<open>
  Claim C7. With the variables \<open>price = 1000\<close>, \<open>tax = 0.2\<close>, \<open>total = {{price}}*{{tax}}\<close>
  in that order, and a host \<open>eval\<close> that gives 200 for \<open>1000*0.2\<close>: the expression is
  substituted to \<open>1000*0.2\<close>, which passes the character class test, is evaluated to
  \<open>200\<close>, and \<open>Total: {{total}}\<close> becomes \<open>Total: 200\<close>.
\<close>

theorem C7_total_example:
  assumes "ev ''1000*0.2'' = Some ''200''"
  shows "eval_subst price_vars ''{{price}}*{{tax}}'' = Some (Inr ''1000*0.2'') \<and>
         is_math (strip_markers ''1000*0.2'') \<and>
         evaluateExpression ev price_vars ''{{price}}*{{tax}}'' = Some (Inr ''200'') \<and>
         substituteVariables ev price_vars ''Total: {{total}}'' = Some (Inr ''Total: 200'')"
proof -
  have e: "evaluateExpression ev price_vars ''{{price}}*{{tax}}'' = Some (Inr ''200'')"
    using price_is_math assms by (simp add: evaluateExpression_def price_eval_subst)
  have "substituteVariables ev price_vars ''Total: {{total}}'' =
      subst_loop ev price_vars [\<lparr>v_key = ''total'', v_value = ''{{price}}*{{tax}}''\<rparr>]
        ''Total: {{total}}''"
    by (simp add: substituteVariables_def price_vars_def key_pattern_def syntax_char_def
        placeholder_def startsWith_def)
  also have "\<dots> = Some (Inr ''Total: 200'')"
    using e by (simp add: key_pattern_def syntax_char_def placeholder_def startsWith_def)
  finally show ?thesis using e price_eval_subst price_is_math by simp
qed

theorem C7_total_example_witness:
  "sample_eval ''1000*0.2'' = Some ''200'' \<and>
   substituteVariables sample_eval price_vars ''Total: {{total}}'' = Some (Inr ''Total: 200'')"
proof -
  have h: "sample_eval ''1000*0.2'' = Some ''200''" by (simp add: sample_eval_def)
  from C7_total_example [of sample_eval, OF h] h show ?thesis by simp
qed

text \<open>
  Claim C9 fails on the code: the key is used as a regular expression, and the value as
  a replacement pattern. The key \<open>a.b\<close> replaces \<open>{{axb}}\<close>, which is no occurrence of
  \<open>{{a.b}}\<close>; the value \<open><$&>\<close> is inserted as \<open><{{k}}>\<close>.
\<close>

theorem C9_key_is_a_pattern:
  "substituteVariables ev [\<lparr>v_key = ''a.b'', v_value = ''X''\<rparr>] ''{{axb}}'' = Some (Inr ''X'') \<and>
   substituteVariables ev [\<lparr>v_key = ''k'', v_value = ''<$&>''\<rparr>] ''see {{k}}'' =
     Some (Inr ''see <{{k}}>'')"
  by (simp add: substituteVariables_def key_pattern_def syntax_char_def placeholder_def
      startsWith_def)

subsection \<open>Lines, trimming and the import of canonical blocks\<close>

lemma split_lines_Nil [simp]: "split_lines [] = [[]]"
  by (simp add: split_lines.simps)

lemma split_lines_nl [simp]: "split_lines (CHR 0x0A # s) = [] # split_lines s"
  by (subst split_lines.simps) simp

lemma split_lines_nonempty [simp]: "split_lines s \<noteq> []"
  by (subst split_lines.simps) (simp split: list.splits)

lemma split_lines_Cons:
  "c \<noteq> CHR 0x0A \<Longrightarrow> split_lines (c # s) = (c # hd (split_lines s)) # tl (split_lines s)"
proof (cases "dropWhile (\<lambda>c. c \<noteq> CHR 0x0A) s")
  case Nil
  assume c: "c \<noteq> CHR 0x0A"
  have "split_lines s = [s]" by (subst split_lines.simps) (simp only: Nil list.case)
  moreover from Nil c have d: "dropWhile (\<lambda>c. c \<noteq> CHR 0x0A) (c # s) = []" by simp
  have "split_lines (c # s) = [c # s]" by (subst split_lines.simps) (simp only: d list.case)
  ultimately show ?thesis by simp
next
  case (Cons x r)
  assume c: "c \<noteq> CHR 0x0A"
  have "split_lines s = takeWhile (\<lambda>c. c \<noteq> CHR 0x0A) s # split_lines r"
    by (subst split_lines.simps) (simp only: Cons list.case)
  moreover from Cons c have d: "dropWhile (\<lambda>c. c \<noteq> CHR 0x0A) (c # s) = x # r" by simp
  from c have t: "takeWhile (\<lambda>c. c \<noteq> CHR 0x0A) (c # s) = c # takeWhile (\<lambda>c. c \<noteq> CHR 0x0A) s"
    by simp
  have "split_lines (c # s) = (c # takeWhile (\<lambda>c. c \<noteq> CHR 0x0A) s) # split_lines r"
    by (subst split_lines.simps) (simp only: d t list.case)
  ultimately show ?thesis by simp
qed

lemma split_lines_append:
  "split_lines (a @ CHR 0x0A # b) = split_lines a @ split_lines b"
proof (induction a)
  case Nil
  show ?case by simp
next
  case (Cons c a)
  show ?case
  proof (cases "c = CHR 0x0A")
    case True
    with Cons show ?thesis by simp
  next
    case False
    with Cons show ?thesis
      by (cases "split_lines a") (simp_all add: split_lines_Cons)
  qed
qed

lemma join_lines_Cons: "ls \<noteq> [] \<Longrightarrow> join_lines (l # ls) = l @ CHR 0x0A # join_lines ls"
  by (cases ls) simp_all

lemma join_split_lines: "join_lines (split_lines s) = s"
proof (induction s)
  case Nil
  show ?case by simp
next
  case (Cons c s)
  show ?case
  proof (cases "c = CHR 0x0A")
    case True
    with Cons show ?thesis by (simp add: join_lines_Cons)
  next
    case False
    obtain l ls where e: "split_lines s = l # ls" by (cases "split_lines s") simp_all
    with Cons have "join_lines (l # ls) = s" by simp
    with False e show ?thesis
      by (cases ls) (simp_all add: split_lines_Cons)
  qed
qed

lemma trim_empty_iff: "trim l = [] \<longleftrightarrow> list_all is_space l"
proof -
  have "trim l = [] \<longleftrightarrow> dropWhile is_space (rev (dropWhile is_space l)) = []"
    by (simp add: trim_def)
  also have "\<dots> \<longleftrightarrow> (\<forall>c \<in> set (dropWhile is_space l). is_space c)"
    by (simp add: dropWhile_eq_Nil_conv)
  also have "\<dots> \<longleftrightarrow> dropWhile is_space l = []"
  proof
    assume a: "\<forall>c \<in> set (dropWhile is_space l). is_space c"
    show "dropWhile is_space l = []"
    proof (cases "dropWhile is_space l")
      case Nil
      then show ?thesis .
    next
      case (Cons c r)
      then have "\<not> is_space c" using hd_dropWhile [of is_space l] by simp
      with a Cons show ?thesis by simp
    qed
  next
    assume e: "dropWhile is_space l = []"
    show "\<forall>c \<in> set (dropWhile is_space l). is_space c" unfolding e by simp
  qed
  also have "\<dots> \<longleftrightarrow> list_all is_space l"
    by (simp add: dropWhile_eq_Nil_conv list_all_iff)
  finally show ?thesis .
qed

lemma trim_tail:
  assumes "x \<noteq> []" "\<not> is_space (hd x)" "\<not> is_space (last x)"
  shows "trim (x @ [CHR 0x0A, CHR 0x0A]) = x"
proof -
  from assms(1,2) have 1: "dropWhile is_space (x @ [CHR 0x0A, CHR 0x0A]) = x @ [CHR 0x0A, CHR 0x0A]"
    by (cases x) simp_all
  have nl: "is_space (CHR 0x0A)" by (simp add: is_space_def)
  from assms(1,3) have "dropWhile is_space (rev x) = rev x"
    by (cases "rev x") (simp_all add: last_rev [symmetric] hd_rev)
  then show ?thesis by (simp add: trim_def 1 nl)
qed


lemma space_not_marker: "is_space c \<Longrightarrow> c \<noteq> CHR ''#'' \<and> c \<noteq> CHR 0x60 \<and> c \<noteq> CHR ''-'' \<and> c \<noteq> CHR ''*''"
  by (auto simp: is_space_def)

lemma blank_no_marker:
  assumes "\<not> nonblank l"
  shows "\<not> heading_line l \<and> \<not> fence_line l \<and> \<not> item_line l"
proof (cases l)
  case Nil
  then show ?thesis by (simp add: heading_line_def fence_line_def item_line_def startsWith_def)
next
  case (Cons c r)
  with assms have "is_space c" by (simp add: nonblank_def trim_empty_iff)
  from space_not_marker [OF this] Cons show ?thesis
    by (auto simp: heading_line_def fence_line_def item_line_def startsWith_def)
qed

lemma fence_not_heading: "fence_line l \<Longrightarrow> \<not> heading_line l"
  by (cases l) (auto simp: heading_line_def fence_line_def startsWith_def)

lemma item_not_heading: "item_line l \<Longrightarrow> \<not> heading_line l \<and> \<not> fence_line l"
  by (cases l) (auto simp: heading_line_def fence_line_def item_line_def startsWith_def)

lemma item_nonblank: "item_line l \<Longrightarrow> nonblank l"
  using blank_no_marker by blast

lemma line_blank: "\<not> nonblank l \<Longrightarrow> import_line mint l st = st"
  using blank_no_marker [of l]
  by (cases st)
     (simp add: import_line_def heading_line_def fence_line_def item_line_def nonblank_def)

lemma line_heading:
  "heading_line l \<Longrightarrow>
   import_line mint l (acc, cur) = (finishCurrentBlock mint cur acc, Some (THeading, l))"
  by (simp add: import_line_def heading_line_def)

lemma line_fence_open:
  "fence_line l \<Longrightarrow> \<forall>x. cur \<noteq> Some (TCode, x) \<Longrightarrow>
   import_line mint l (acc, cur) = (finishCurrentBlock mint cur acc, Some (TCode, l))"
  using fence_not_heading [of l]
  by (auto simp: import_line_def heading_line_def fence_line_def
      split: option.splits block_type.splits)

lemma line_fence_close:
  "fence_line l \<Longrightarrow>
   import_line mint l (acc, Some (TCode, x)) =
     (finishCurrentBlock mint (Some (TCode, x @ CHR 0x0A # l)) acc, None)"
  using fence_not_heading [of l]
  by (simp add: import_line_def heading_line_def fence_line_def)

lemma line_item_open:
  "item_line l \<Longrightarrow> \<forall>x. cur \<noteq> Some (TList, x) \<Longrightarrow>
   import_line mint l (acc, cur) = (finishCurrentBlock mint cur acc, Some (TList, l))"
  using item_not_heading [of l]
  by (auto simp: import_line_def heading_line_def fence_line_def item_line_def
      split: option.splits block_type.splits)

lemma line_list_cont:
  "nonblank l \<Longrightarrow> \<not> heading_line l \<Longrightarrow> \<not> fence_line l \<Longrightarrow>
   import_line mint l (acc, Some (TList, x)) = (acc, Some (TList, x @ CHR 0x0A # l))"
  by (simp add: import_line_def heading_line_def fence_line_def nonblank_def)

lemma line_plain_open:
  "plain_line l \<Longrightarrow>
   \<forall>x. cur \<noteq> Some (TParagraph, x) \<and> cur \<noteq> Some (TCode, x) \<and> cur \<noteq> Some (TList, x) \<Longrightarrow>
   import_line mint l (acc, cur) = (finishCurrentBlock mint cur acc, Some (TParagraph, l))"
  by (auto simp: import_line_def plain_line_def heading_line_def fence_line_def item_line_def
      nonblank_def split: option.splits block_type.splits)

lemma line_plain_cont:
  "plain_line l \<Longrightarrow> ty = TParagraph \<or> ty = TCode \<or> ty = TList \<Longrightarrow>
   import_line mint l (acc, Some (ty, x)) = (acc, Some (ty, x @ CHR 0x0A # l))"
  by (auto simp: import_line_def plain_line_def heading_line_def fence_line_def item_line_def
      nonblank_def)

lemma join_lines_snoc_head:
  "join_lines ((x @ CHR 0x0A # l) # ls) = x @ CHR 0x0A # join_lines (l # ls)"
  by (cases ls) simp_all

lemma fold_cont:
  assumes "\<And>l x. l \<in> set ls \<Longrightarrow>
     import_line mint l (acc, Some (ty, x)) = (acc, Some (ty, x @ CHR 0x0A # l))"
  shows "fold (import_line mint) ls (acc, Some (ty, x)) = (acc, Some (ty, join_lines (x # ls)))"
  using assms
proof (induction ls arbitrary: x)
  case Nil
  show ?case by simp
next
  case (Cons l ls)
  have "fold (import_line mint) (l # ls) (acc, Some (ty, x)) =
        fold (import_line mint) ls (acc, Some (ty, x @ CHR 0x0A # l))"
    by (simp add: Cons.prems)
  also have "\<dots> = (acc, Some (ty, join_lines ((x @ CHR 0x0A # l) # ls)))"
    by (rule Cons.IH) (simp add: Cons.prems)
  finally show ?case by (simp add: join_lines_snoc_head)
qed

lemma fold_blank:
  "fold (import_line mint) ls st = fold (import_line mint) (filter nonblank ls) st"
  by (induction ls arbitrary: st) (simp_all add: line_blank)


lemma join_lines_snoc: "ls \<noteq> [] \<Longrightarrow> join_lines (ls @ [z]) = join_lines ls @ CHR 0x0A # z"
  by (induction ls rule: join_lines.induct) simp_all

lemma starts_block_cases:
  assumes "starts_block cur ty"
  shows "\<forall>x. cur \<noteq> Some (TCode, x)"
    and "ty = TParagraph \<Longrightarrow> \<forall>x. cur \<noteq> Some (TParagraph, x) \<and> cur \<noteq> Some (TCode, x) \<and> cur \<noteq> Some (TList, x)"
    and "ty = TList \<Longrightarrow> \<forall>x. cur \<noteq> Some (TList, x)"
  using assms by (auto simp: starts_block_def merges_def split: option.splits)

lemma block_lines:
  assumes c: "canonical_lines ty ls" and s: "starts_block cur ty"
  shows "fold (import_line mint) ls (acc, cur) =
     (if ty = TCode
      then (finishCurrentBlock mint (Some (TCode, join_lines ls))
              (finishCurrentBlock mint cur acc), None)
      else (finishCurrentBlock mint cur acc, Some (ty, join_lines ls)))"
proof (cases ty)
  case THeading
  with c obtain l where "ls = [l]" "heading_line l"
    by (auto split: list.splits)
  with THeading show ?thesis by (simp add: line_heading)
next
  case TParagraph
  with c obtain l rest where ls: "ls = l # rest" and p: "plain_line l" "list_all plain_line rest"
    by (cases ls) auto
  have "fold (import_line mint) ls (acc, cur) =
      fold (import_line mint) rest (finishCurrentBlock mint cur acc, Some (TParagraph, l))"
    using line_plain_open [OF p(1) starts_block_cases(2) [OF s TParagraph]] by (simp add: ls)
  also have "\<dots> = (finishCurrentBlock mint cur acc, Some (TParagraph, join_lines (l # rest)))"
    using p(2) by (intro fold_cont line_plain_cont) (auto simp: list_all_iff)
  finally show ?thesis using TParagraph ls by simp
next
  case TList
  with c obtain l rest where ls: "ls = l # rest" and p: "item_line l"
    "list_all (\<lambda>x. nonblank x \<and> \<not> heading_line x \<and> \<not> fence_line x) rest"
    by (cases ls) auto
  have "fold (import_line mint) ls (acc, cur) =
      fold (import_line mint) rest (finishCurrentBlock mint cur acc, Some (TList, l))"
    using line_item_open [OF p(1) starts_block_cases(3) [OF s TList]] by (simp add: ls)
  also have "\<dots> = (finishCurrentBlock mint cur acc, Some (TList, join_lines (l # rest)))"
    using p(2) by (intro fold_cont line_list_cont) (auto simp: list_all_iff)
  finally show ?thesis using TList ls by simp
next
  case TCode
  with c obtain l rest where ls: "ls = l # rest" and p: "fence_line l" "rest \<noteq> []"
    "fence_line (last rest)" "list_all plain_line (butlast rest)"
    by (cases ls) auto
  let ?acc = "finishCurrentBlock mint cur acc"
  from p(2) have r: "rest = butlast rest @ [last rest]" by simp
  have "fold (import_line mint) ls (acc, cur) =
      fold (import_line mint) rest (?acc, Some (TCode, l))"
    using line_fence_open [OF p(1) starts_block_cases(1) [OF s]] by (simp add: ls)
  also have "\<dots> = import_line mint (last rest)
      (fold (import_line mint) (butlast rest) (?acc, Some (TCode, l)))"
    by (subst r) simp
  also have "fold (import_line mint) (butlast rest) (?acc, Some (TCode, l)) =
      (?acc, Some (TCode, join_lines (l # butlast rest)))"
    using p(4) by (intro fold_cont line_plain_cont) (auto simp: list_all_iff)
  also have "import_line mint (last rest) (?acc, Some (TCode, join_lines (l # butlast rest))) =
      (finishCurrentBlock mint
         (Some (TCode, join_lines (l # butlast rest) @ CHR 0x0A # last rest)) ?acc, None)"
    by (rule line_fence_close [OF p(3)])
  also have "join_lines (l # butlast rest) @ CHR 0x0A # last rest = join_lines ls"
    using join_lines_snoc [of "l # butlast rest" "last rest"] r ls by simp
  finally show ?thesis using TCode by simp
next
  case TTable
  with c show ?thesis by simp
qed


lemma sig_finish_Some:
  "map block_sig (finishCurrentBlock mint (Some (ty, x)) xs) = map block_sig xs @ [(ty, Text x)]"
  by (simp add: finishCurrentBlock_def block_sig_def)

lemma finish_None: "finishCurrentBlock mint None xs = xs"
  by (simp add: finishCurrentBlock_def)

lemma canonical_text:
  "canonical b \<Longrightarrow>
   b_content b = Text (block_text b) \<and> b_type b \<noteq> TTable \<and>
   canonical_lines (b_type b) (filter nonblank (split_lines (block_text b)))"
  by (cases "b_content b"; cases "b_type b") (auto simp: canonical_def block_text_def)

lemma doc_fold:
  assumes "list_all canonical bs" "no_merge (map b_type bs)"
    "bs \<noteq> [] \<longrightarrow> starts_block cur (b_type (hd bs))"
  shows "\<exists>fa fc.
     fold (import_line mint)
       (concat (map (\<lambda>b. filter nonblank (split_lines (block_text b))) bs)) (acc, cur) = (fa, fc) \<and>
     map block_sig (finishCurrentBlock mint fc fa) =
       map block_sig (finishCurrentBlock mint cur acc) @ map normalized_sig bs"
  using assms
proof (induction bs arbitrary: acc cur)
  case Nil
  show ?case by simp
next
  case (Cons b rest)
  let ?ls = "filter nonblank (split_lines (block_text b))"
  let ?x = "normalized (block_text b)"
  from Cons.prems(1) have cb: "canonical_lines (b_type b) ?ls" and cr: "list_all canonical rest"
    by (simp_all add: canonical_text)
  from Cons.prems(3) have sb: "starts_block cur (b_type b)" by simp
  from Cons.prems(2) have nm: "no_merge (map b_type rest)" by (cases rest) simp_all
  define acc' where "acc' = (if b_type b = TCode
      then finishCurrentBlock mint (Some (TCode, ?x)) (finishCurrentBlock mint cur acc)
      else finishCurrentBlock mint cur acc)"
  define cur' where "cur' = open_after (b_type b) ?x"
  have step: "fold (import_line mint) ?ls (acc, cur) = (acc', cur')"
    using block_lines [OF cb sb, of mint acc]
    by (simp add: acc'_def cur'_def open_after_def normalized_def)
  have next_ok: "rest \<noteq> [] \<longrightarrow> starts_block cur' (b_type (hd rest))"
    using Cons.prems(2)
    by (cases rest) (auto simp: cur'_def open_after_def starts_block_def)
  from Cons.IH [OF cr nm next_ok, of acc'] obtain fa fc where
    f: "fold (import_line mint)
          (concat (map (\<lambda>b. filter nonblank (split_lines (block_text b))) rest)) (acc', cur') = (fa, fc)"
    and g: "map block_sig (finishCurrentBlock mint fc fa) =
          map block_sig (finishCurrentBlock mint cur' acc') @ map normalized_sig rest"
    by blast
  have h: "map block_sig (finishCurrentBlock mint cur' acc') =
      map block_sig (finishCurrentBlock mint cur acc) @ [normalized_sig b]"
    by (simp add: acc'_def cur'_def open_after_def sig_finish_Some finish_None normalized_sig_def)
  show ?case
    by (intro exI [of _ fa] exI [of _ fc]) (simp add: step f g h)
qed


lemma insort_key_map:
  "map g (insort_key (\<lambda>a. k (g a)) x xs) = insort_key k (g x) (map g xs)"
  by (induction xs) simp_all

lemma sort_key_map: "map g (sort_key (\<lambda>a. k (g a)) xs) = sort_key k (map g xs)"
  by (induction xs) (simp_all add: insort_key_map)

lemma block_items_ungrouped:
  assumes "list_all (\<lambda>b. b_groupId b = None) (blocks s)"
  shows "block_items s = map (\<lambda>(i, b). BlockItem i b (ord0 b)) (enumerate 0 (blocks s))"
proof -
  have "filter (\<lambda>(i, b). \<not> truthy (b_groupId b)) (enumerate 0 (blocks s)) = enumerate 0 (blocks s)"
    using assms by (auto simp: list_all_iff filter_id_conv in_set_enumerate_eq truthy_def)
  then show ?thesis by (simp add: block_items_def)
qed

lemma ungrouped_document_order:
  assumes "list_all (\<lambda>b. b_groupId b = None) (blocks s)"
  shows "concat (map item_blocks (getAllOrderedItems s)) = document_order s"
proof -
  let ?F = "\<lambda>(i, b). BlockItem i b (ord0 b)"
  let ?e = "enumerate 0 (blocks s)"
  have o: "(\<lambda>a. item_order (?F a)) = (\<lambda>a. ord0 (snd a))" by (auto simp: fun_eq_iff)
  have "getAllOrderedItems s = sort_key item_order (map ?F ?e)"
    by (simp add: getAllOrderedItems_def group_items_none [OF assms] block_items_ungrouped [OF assms])
  also have "\<dots> = map ?F (sort_key (\<lambda>a. ord0 (snd a)) ?e)"
    using sort_key_map [of ?F item_order ?e] by (simp only: o)
  finally have g: "getAllOrderedItems s = map ?F (sort_key (\<lambda>a. ord0 (snd a)) ?e)" .
  have "concat (map item_blocks (map ?F ys)) = map snd ys" for ys
    by (induction ys) auto
  with g have "concat (map item_blocks (getAllOrderedItems s)) =
      map snd (sort_key (\<lambda>a. ord0 (snd a)) ?e)"
    by (simp only:)
  also have "\<dots> = sort_key ord0 (map snd ?e)" by (rule sort_key_map)
  finally show ?thesis by (simp add: document_order_def map_snd_enumerate)
qed


lemma emit_canonical:
  "list_all canonical bs \<Longrightarrow>
   emit_blocks ev [] bs acc =
     Some (Inr (acc @ concat (map (\<lambda>b. block_text b @ [CHR 0x0A, CHR 0x0A]) bs)))"
proof (induction bs arbitrary: acc)
  case Nil
  show ?case by simp
next
  case (Cons b bs)
  from Cons.prems have c: "b_content b = Text (block_text b)" "b_type b \<noteq> TTable"
    by (simp_all add: canonical_text)
  then have "block_markdown ev [] b = Some (Inr (block_text b))"
    by (simp add: block_markdown_def substituteVariables_def)
  with Cons show ?case by simp
qed

lemma concat_doc_text:
  "xs \<noteq> [] \<Longrightarrow> concat (map (\<lambda>x. x @ [CHR 0x0A, CHR 0x0A]) xs) = doc_text xs @ [CHR 0x0A, CHR 0x0A]"
  by (induction xs rule: doc_text.induct) simp_all

lemma nonblank_Nil [simp]: "\<not> nonblank []"
  by (simp add: nonblank_def trim_def)

lemma lines_doc_text:
  "filter nonblank (split_lines (doc_text xs)) =
     concat (map (\<lambda>x. filter nonblank (split_lines x)) xs)"
proof (induction xs rule: doc_text.induct)
  case 1
  show ?case by simp
next
  case (2 x)
  show ?case by simp
next
  case (3 x y r)
  have "split_lines (doc_text (x # y # r)) =
      split_lines x @ [] # split_lines (doc_text (y # r))"
    using split_lines_append [of x "CHR 0x0A # doc_text (y # r)"] by simp
  with 3 show ?case by simp
qed

lemma doc_text_hd: "xs \<noteq> [] \<Longrightarrow> hd xs \<noteq> [] \<Longrightarrow> doc_text xs \<noteq> [] \<and> hd (doc_text xs) = hd (hd xs)"
  by (induction xs rule: doc_text.induct) simp_all

lemma doc_text_last:
  "xs \<noteq> [] \<Longrightarrow> last xs \<noteq> [] \<Longrightarrow> doc_text xs \<noteq> [] \<and> last (doc_text xs) = last (last xs)"
proof (induction xs rule: doc_text.induct)
  case 1
  then show ?case by simp
next
  case (2 x)
  then show ?case by simp
next
  case (3 x y r)
  then have "doc_text (y # r) \<noteq> [] \<and> last (doc_text (y # r)) = last (last (y # r))" by simp
  then show ?case by simp
qed

lemma canonical_nonempty: "canonical b \<Longrightarrow> block_text b \<noteq> []"
proof
  assume c: "canonical b" and e: "block_text b = []"
  from canonical_text [OF c] e have "canonical_lines (b_type b) []" by simp
  then show False by (cases "b_type b") simp_all
qed

lemma import_blocks_Nil: "import_blocks mint [] = []"
  by (simp add: import_blocks_def line_blank finish_None)

lemma round_trip_blocks:
  assumes c: "list_all canonical bs" and m: "no_merge (map b_type bs)"
  shows "map block_sig (import_blocks mint (doc_text (map block_text bs))) = map normalized_sig bs"
proof -
  let ?md = "doc_text (map block_text bs)"
  have "fold (import_line mint) (split_lines ?md) ([], None) =
      fold (import_line mint)
        (concat (map (\<lambda>b. filter nonblank (split_lines (block_text b))) bs)) ([], None)"
    by (subst fold_blank) (simp add: lines_doc_text comp_def)
  moreover have "bs \<noteq> [] \<longrightarrow> starts_block None (b_type (hd bs))"
    by (simp add: starts_block_def)
  from doc_fold [OF c m this, of mint "[]"] obtain fa fc where
    "fold (import_line mint)
       (concat (map (\<lambda>b. filter nonblank (split_lines (block_text b))) bs)) ([], None) = (fa, fc)"
    "map block_sig (finishCurrentBlock mint fc fa) = map normalized_sig bs"
    by (auto simp: finish_None)
  ultimately show ?thesis by (simp add: import_blocks_def)
qed

subsection \<open>The round trip\<close>

text \<open>
  Claim C3 as stated fails. A document of two ungrouped paragraph blocks, with no
  variables and no groups, is generated as the two paragraphs with an empty line between
  them, and \<open>importMarkdown\<close> reads that text as one paragraph: a blank line does not
  close a block.
\<close>

theorem C3_round_trip_counterexample:
  "variables two_paragraphs = [] \<and> groups two_paragraphs = [] \<and>
   map b_type (blocks two_paragraphs) = [TParagraph, TParagraph] \<and>
   map b_groupId (blocks two_paragraphs) = [None, None] \<and>
   generateMarkdown sample_eval two_paragraphs = Some (Inr two_paragraphs_md) \<and>
   map b_type (import_blocks sample_mint two_paragraphs_md) = [TParagraph]"
  by code_simp

text \<open>
  Claim C3, amended. For a document with no variables whose blocks are ungrouped text
  blocks of type heading, paragraph, list or code, each canonical for its type (see
  \<open>canonical_lines\<close>), such that in document order no paragraph follows a paragraph or a
  list directly and no list follows a list directly, and such that the first block does
  not start and the last block does not end with white space: \<open>generateMarkdown\<close>
  returns a text, and \<open>importMarkdown\<close> of that text yields as many blocks as the
  document has, in document order, with the same types and with the same text up to the
  removal of blank lines.
\<close>

theorem C3_round_trip:
  assumes "round_trip_doc s"
  shows "\<exists>markdown.
     generateMarkdown ev s = Some (Inr markdown) \<and>
     map block_sig (import_blocks mint markdown) = map normalized_sig (document_order s)"
proof -
  let ?bs = "document_order s"
  from assms have v: "variables s = []"
    and u: "list_all (\<lambda>b. b_groupId b = None) (blocks s)"
    and c0: "list_all canonical (blocks s)"
    and m: "no_merge (map b_type ?bs)"
    by (simp_all add: round_trip_doc_def)
  from c0 have c: "list_all canonical ?bs" by (simp add: document_order_def list_all_iff)
  have gen: "generateMarkdown ev s =
      Some (Inr (trim (concat (map (\<lambda>b. block_text b @ [CHR 0x0A, CHR 0x0A]) ?bs))))"
    by (simp add: generateMarkdown_def v ungrouped_document_order [OF u] emit_canonical [OF c])
  show ?thesis
  proof (cases ?bs)
    case Nil
    then show ?thesis by (simp add: gen trim_def import_blocks_Nil)
  next
    case (Cons b rest)
    let ?xs = "map block_text ?bs"
    from Cons assms have sp: "\<not> is_space (hd (block_text b))"
      "\<not> is_space (last (block_text (last ?bs)))"
      by (simp_all add: round_trip_doc_def)
    from c Cons have ne: "block_text b \<noteq> []" "block_text (last ?bs) \<noteq> []"
      by (auto simp: canonical_nonempty list_all_iff)
    from Cons have xs: "?xs \<noteq> []" "hd ?xs = block_text b" "last ?xs = block_text (last ?bs)"
      by (simp_all add: last_map)
    from doc_text_hd [OF xs(1)] doc_text_last [OF xs(1)] xs ne sp
    have t: "doc_text ?xs \<noteq> []" "\<not> is_space (hd (doc_text ?xs))" "\<not> is_space (last (doc_text ?xs))"
      by simp_all
    have "concat (map (\<lambda>b. block_text b @ [CHR 0x0A, CHR 0x0A]) ?bs) =
        doc_text ?xs @ [CHR 0x0A, CHR 0x0A]"
      using concat_doc_text [OF xs(1)] by (simp add: comp_def)
    with trim_tail [OF t] gen have "generateMarkdown ev s = Some (Inr (doc_text ?xs))"
      by simp
    with round_trip_blocks [OF c m, of mint] show ?thesis by simp
  qed
qed

lemma four_kinds_round_trip_doc: "round_trip_doc four_kinds"
  by code_simp

lemma four_kinds_normalized:
  "map normalized_sig (document_order four_kinds) = map block_sig (blocks four_kinds)"
  by code_simp

theorem C3_round_trip_witness:
  "round_trip_doc four_kinds \<and>
   (\<exists>markdown.
      generateMarkdown sample_eval four_kinds = Some (Inr markdown) \<and>
      map block_sig (import_blocks sample_mint markdown) = map block_sig (blocks four_kinds))"
  using C3_round_trip [OF four_kinds_round_trip_doc, of sample_eval sample_mint]
        four_kinds_round_trip_doc
  by (simp only: four_kinds_normalized)

end
